theory Spec2Isabelle
  imports Main "HOL-Library.Char_ord" "HOL-Library.List_Lexorder" "HOL-Library.Multiset"
    "HOL-Library.AList"
begin

section \<open>String and path primitives used by the module\<close>

text \<open>
  The module \<^verbatim>\<open>container_config_hash.py\<close> works on Python \<^verbatim>\<open>str\<close> values and
  on POSIX paths. Strings are modelled as \<^typ>\<open>string\<close>; the functions of
  \<^verbatim>\<open>str\<close> and \<^verbatim>\<open>posixpath\<close> the module calls are written out below.
\<close>

definition sep :: char where
  "sep = CHR ''/''"

definition newline :: char where
  "newline = CHR 0x0A"

text \<open>\<^verbatim>\<open>s.startswith(p)\<close>\<close>

definition startswith :: "string \<Rightarrow> string \<Rightarrow> bool" where
  "startswith s p = (take (length p) s = p)"

text \<open>\<^verbatim>\<open>s.endswith(p)\<close>\<close>

definition endswith :: "string \<Rightarrow> string \<Rightarrow> bool" where
  "endswith s p = (startswith (rev s) (rev p))"

text \<open>\<^verbatim>\<open>s.rstrip(c)\<close> for a one-character argument\<close>

definition rstrip :: "char \<Rightarrow> string \<Rightarrow> string" where
  "rstrip c s = rev (dropWhile (\<lambda>x. x = c) (rev s))"

text \<open>\<^verbatim>\<open>s.strip(c)\<close> for a one-character argument: both ends are trimmed\<close>

definition strip :: "char \<Rightarrow> string \<Rightarrow> string" where
  "strip c s = dropWhile (\<lambda>x. x = c) (rstrip c s)"

text \<open>\<^verbatim>\<open>v.split(":")[0]\<close>: the part before the first colon, all of \<open>v\<close> without one\<close>

definition split_colon_0 :: "string \<Rightarrow> string" where
  "split_colon_0 v = takeWhile (\<lambda>x. x \<noteq> CHR '':'') v"

text \<open>\<^verbatim>\<open>p[:p.rfind('/') + 1]\<close> and \<^verbatim>\<open>p[p.rfind('/') + 1:]\<close>\<close>

definition upto_last_sep :: "string \<Rightarrow> string" where
  "upto_last_sep p = rev (dropWhile (\<lambda>x. x \<noteq> sep) (rev p))"

definition basename :: "string \<Rightarrow> string" where
  "basename p = rev (takeWhile (\<lambda>x. x \<noteq> sep) (rev p))"

text \<open>
  \<^verbatim>\<open>posixpath.dirname\<close>:
  \<^verbatim>\<open>
    i = p.rfind(sep) + 1
    head = p[:i]
    if head and head != sep*len(head):
        head = head.rstrip(sep)
    return head
  \<close>
\<close>

definition dirname :: "string \<Rightarrow> string" where
  "dirname p =
     (if upto_last_sep p \<noteq> [] \<and> upto_last_sep p \<noteq> replicate (length (upto_last_sep p)) sep
      then rstrip sep (upto_last_sep p)
      else upto_last_sep p)"

text \<open>
  \<^verbatim>\<open>posixpath.join(a, b)\<close> with two arguments: an absolute \<open>b\<close> replaces \<open>a\<close>;
  otherwise a separator is inserted unless \<open>a\<close> is empty or already ends with one.
\<close>

definition join :: "string \<Rightarrow> string \<Rightarrow> string" where
  "join a b =
     (if startswith b [sep] then b
      else if a = [] \<or> endswith a [sep] then a @ b
      else a @ [sep] @ b)"

text \<open>
  \<^verbatim>\<open>posixpath.splitext(p)[0]\<close>. The extension starts at the last dot of the last
  path component, unless only dots precede that dot in the component.
\<close>

definition splitext_root :: "string \<Rightarrow> string" where
  "splitext_root p =
     (let name = basename p;
          ext = rev (takeWhile (\<lambda>x. x \<noteq> CHR ''.'') (rev name));
          stem = take (length name - length ext - 1) name
      in if CHR ''.'' \<in> set name \<and> filter (\<lambda>x. x \<noteq> CHR ''.'') stem \<noteq> []
         then take (length p - length ext - 1) p
         else p)"

section \<open>JSON values and errors\<close>

text \<open>
  The Python value \<^verbatim>\<open>json.loads\<close> returns: \<^verbatim>\<open>None\<close>, a bool, an int, a float
  (kept by its literal), a \<^verbatim>\<open>str\<close>, a list, or a dict. A dict keeps its keys in
  insertion order and has no key twice; it is an association list read with
  \<^const>\<open>map_of\<close> and written with \<^const>\<open>AList.update\<close>, which replaces a present
  key in place and appends an absent one, as assignment to a dict key does.

  \<^verbatim>\<open>module.fail_json\<close> ends the run with a message; the two messages of the module
  are kept as structured values carrying what the message names. An exception that
  the module does not catch ends the run as well.
\<close>

datatype json =
    JNull
  | JBool bool
  | JInt int
  | JFloat string
  | JStr string
  | JList "json list"
  | JObj "(string \<times> json) list"

datatype error =
    ConfigBaseNotFound string string
      \<comment> \<open>\<^verbatim>\<open>Could not find config base for: {volume} with prefix: {prefix}\<close>\<close>
  | ErrorFetchingVolumes string json
      \<comment> \<open>\<^verbatim>\<open>Error fetching volumes. Prefix: {prefix} - Config: {config}\<close>\<close>
  | AttributeError
  | TypeError
  | JSONDecodeError

section \<open>Base resolution\<close>

text \<open>
  The \<^verbatim>\<open>while\<close> loop of \<^verbatim>\<open>_get_config_base\<close>. The loop has no bound of its own
  (with prefix \<^verbatim>\<open>/\<close> the path \<^verbatim>\<open>/\<close> is its own parent), so not returning is the
  value \<open>None\<close>.
\<close>

partial_function (option) crawl ::
  "string \<Rightarrow> string \<Rightarrow> string \<Rightarrow> string \<Rightarrow> string \<Rightarrow> (error + string) option" where
  "crawl volume prefix base base_generated path =
     (if startswith path prefix then
        (if dirname path = base \<or> dirname path = base_generated
         then Some (Inr path)
         else crawl volume prefix base base_generated (dirname path))
      else Some (Inl (ConfigBaseNotFound volume prefix)))"

definition get_config_base :: "string \<Rightarrow> string \<Rightarrow> (error + string) option" where
  "get_config_base prefix volume =
     crawl volume prefix (rstrip sep prefix) (join (rstrip sep prefix) ''ansible-generated'') volume"

declare crawl.simps [code]

section \<open>Matching the config volumes of a descriptor\<close>

text \<open>
  \<^verbatim>\<open>for v in volumes\<close>: a list yields its elements, a \<^verbatim>\<open>str\<close> its characters, a
  dict its keys; any other value is not iterable and raises \<^verbatim>\<open>TypeError\<close>.
\<close>

fun iterate :: "json \<Rightarrow> error + json list" where
  "iterate (JList vs) = Inr vs"
| "iterate (JStr s) = Inr (map (\<lambda>c. JStr [c]) s)"
| "iterate (JObj kvs) = Inr (map (\<lambda>kv. JStr (fst kv)) kvs)"
| "iterate _ = Inl TypeError"

text \<open>
  The list comprehension of \<^verbatim>\<open>_match_config_volumes\<close>:
  \<^verbatim>\<open>[self._get_config_base(prefix, v.split(":")[0]) for v in volumes if v.startswith(prefix)]\<close>.
  Only a \<^verbatim>\<open>str\<close> has \<^verbatim>\<open>startswith\<close>; the first element that fails ends the run.
\<close>

fun config_bases :: "string \<Rightarrow> json list \<Rightarrow> (error + string list) option" where
  "config_bases prefix [] = Some (Inr [])"
| "config_bases prefix (JStr v # vs) =
     (if startswith v prefix then
        (case get_config_base prefix (split_colon_0 v) of
           None \<Rightarrow> None
         | Some (Inl e) \<Rightarrow> Some (Inl e)
         | Some (Inr b) \<Rightarrow>
             (case config_bases prefix vs of
                None \<Rightarrow> None
              | Some (Inl e) \<Rightarrow> Some (Inl e)
              | Some (Inr bs) \<Rightarrow> Some (Inr (b # bs))))
      else config_bases prefix vs)"
| "config_bases prefix (_ # vs) = Some (Inl AttributeError)"

text \<open>
  \<^verbatim>\<open>_match_config_volumes\<close>. \<^verbatim>\<open>config.get('volumes', [])\<close> raises the
  \<^verbatim>\<open>AttributeError\<close> the method catches exactly when \<open>config\<close> is not a dict.
  \<^verbatim>\<open>sorted\<close> compares \<^verbatim>\<open>str\<close> values lexicographically by code point.
\<close>

definition match_config_volumes :: "string \<Rightarrow> json \<Rightarrow> (error + string list) option" where
  "match_config_volumes prefix config =
     (case config of
        JObj kvs \<Rightarrow>
          (case iterate (case map_of kvs ''volumes'' of Some v \<Rightarrow> v | None \<Rightarrow> JList []) of
             Inl e \<Rightarrow> Some (Inl e)
           | Inr volumes \<Rightarrow>
               (case config_bases prefix volumes of
                  None \<Rightarrow> None
                | Some (Inl e) \<Rightarrow> Some (Inl e)
                | Some (Inr bs) \<Rightarrow> Some (Inr (sort bs))))
      | _ \<Rightarrow> Some (Inl (ErrorFetchingVolumes prefix config)))"

section \<open>Files, module state and the JSON library\<close>

text \<open>
  The run reads and writes regular files by path. A file has its text and its
  permission bits. The state of a run is the files, \<^verbatim>\<open>results['changed']\<close>, and the
  messages given to \<^verbatim>\<open>module.warn\<close> and \<^verbatim>\<open>module.debug\<close>, latest first.
  Failures of the operating system (a write that is refused, for instance) are not
  modelled.
\<close>

record fnode =
  content :: string
  mode :: nat

datatype message = Warning string | Debug string

record state =
  files :: "string \<rightharpoonup> fnode"
  changed :: bool
  messages :: "message list"

text \<open>
  \<^verbatim>\<open>json.loads\<close> and \<^verbatim>\<open>json.dumps(_, indent=n)\<close> belong to Python's library, not to
  the module: they are parameters of the model. \<open>loads\<close> gives \<open>None\<close> where
  \<^verbatim>\<open>json.loads\<close> raises \<^verbatim>\<open>JSONDecodeError\<close>.
\<close>

record json_lib =
  loads :: "string \<Rightarrow> json option"
  dumps :: "nat \<Rightarrow> json \<Rightarrow> string"

definition module_warn :: "string \<Rightarrow> state \<Rightarrow> state" where
  "module_warn msg st = st\<lparr>messages := Warning msg # messages st\<rparr>"

definition module_debug :: "string \<Rightarrow> state \<Rightarrow> state" where
  "module_debug msg st = st\<lparr>messages := Debug msg # messages st\<rparr>"

text \<open>\<^verbatim>\<open>os.path.exists(path)\<close>\<close>

definition path_exists :: "string \<Rightarrow> state \<Rightarrow> bool" where
  "path_exists path st = (case files st path of None \<Rightarrow> False | Some f \<Rightarrow> True)"

text \<open>\<^verbatim>\<open>_remove_file\<close>\<close>

definition remove_file :: "string \<Rightarrow> state \<Rightarrow> state" where
  "remove_file path st =
     (if path_exists path st then st\<lparr>files := (files st)(path := None)\<rparr> else st)"

text \<open>\<^verbatim>\<open>_slurp\<close>\<close>

definition slurp :: "string \<Rightarrow> state \<Rightarrow> string \<times> state" where
  "slurp path st =
     (case files st path of
        Some f \<Rightarrow> (content f, st)
      | None \<Rightarrow> ([], module_warn (path @ '' was not found.'') st))"

text \<open>
  \<^verbatim>\<open>_update_container_config\<close>: the file is overwritten with
  \<^verbatim>\<open>json.dumps(config, indent=2)\<close>, its mode set to \<^verbatim>\<open>0o600\<close>, and
  \<^verbatim>\<open>results['changed']\<close> set.
\<close>

definition update_container_config :: "json_lib \<Rightarrow> string \<Rightarrow> json \<Rightarrow> state \<Rightarrow> state" where
  "update_container_config lib path config st =
     st\<lparr>files := (files st)(path \<mapsto> \<lparr>content = dumps lib 2 config, mode = 6 * 64\<rparr>),
        changed := True\<rparr>"

text \<open>
  \<^verbatim>\<open>_get_config_hash\<close>: \<open>None\<close> is Python's \<^verbatim>\<open>None\<close>, returned when the digest
  file does not exist.
\<close>

definition get_config_hash :: "string \<Rightarrow> state \<Rightarrow> string option \<times> state" where
  "get_config_hash config_volume st =
     (if path_exists (config_volume @ ''.md5sum'') st
      then (case slurp (config_volume @ ''.md5sum'') st of
              (text, st') \<Rightarrow> (Some (strip newline text), st'))
      else (None, st))"

text \<open>\<^verbatim>\<open>[self._get_config_hash(vol_path) for vol_path in config_volumes]\<close>\<close>

fun get_config_hashes :: "string list \<Rightarrow> state \<Rightarrow> string option list \<times> state" where
  "get_config_hashes [] st = ([], st)"
| "get_config_hashes (v # vs) st =
     (case get_config_hash v st of (h, st1) \<Rightarrow>
        (case get_config_hashes vs st1 of (hs, st2) \<Rightarrow> (h # hs, st2)))"

text \<open>
  \<^verbatim>\<open>filter(None, config_hashes)\<close> keeps the true values: neither \<^verbatim>\<open>None\<close> nor the
  empty string.
\<close>

fun filter_None :: "string option list \<Rightarrow> string list" where
  "filter_None [] = []"
| "filter_None (None # hs) = filter_None hs"
| "filter_None (Some h # hs) = (if h = [] then filter_None hs else h # filter_None hs)"

text \<open>
  The truth value of what \<^verbatim>\<open>filter\<close> returned, in
  \<^verbatim>\<open>if config_hashes is not None and config_hashes:\<close>. In Python 3 \<^verbatim>\<open>filter\<close> returns an
  iterator object; it is not \<^verbatim>\<open>None\<close>, and an object without \<^verbatim>\<open>__bool__\<close> and
  \<^verbatim>\<open>__len__\<close> is true, whatever it will yield.
\<close>

definition filter_object_truth :: "string list \<Rightarrow> bool" where
  "filter_object_truth config_hashes = True"

text \<open>\<^verbatim>\<open>'-'.join(config_hashes)\<close>\<close>

fun dash_join :: "string list \<Rightarrow> string" where
  "dash_join [] = []"
| "dash_join [h] = h"
| "dash_join (h # hs) = h @ ''-'' @ dash_join hs"

section \<open>Reconciling one descriptor\<close>

text \<open>\<^verbatim>\<open>os.path.splitext(os.path.basename(config))[0]\<close>\<close>

definition cname_of :: "string \<Rightarrow> string" where
  "cname_of config = splitext_root (basename config)"

text \<open>
  The stored hash: the empty string unless the descriptor has an \<^verbatim>\<open>environment\<close>,
  whose \<^verbatim>\<open>get\<close> exists only if it is a dict. The descriptor itself is a dict here:
  \<^verbatim>\<open>_match_config_volumes\<close> has ended the run for any other value.
\<close>

definition old_config_hash :: "json \<Rightarrow> error + json" where
  "old_config_hash config =
     (case config of
        JObj kvs \<Rightarrow>
          (case map_of kvs ''environment'' of
             None \<Rightarrow> Inr (JStr [])
           | Some (JObj env) \<Rightarrow>
               Inr (case map_of env ''EDPM_CONFIG_HASH'' of Some h \<Rightarrow> h | None \<Rightarrow> JStr [])
           | Some _ \<Rightarrow> Inl AttributeError)
      | _ \<Rightarrow> Inl TypeError)"

text \<open>
  \<^verbatim>\<open>
    if 'environment' not in startup_config_json:
        startup_config_json['environment'] = {}
    startup_config_json['environment']['EDPM_CONFIG_HASH'] = config_hash
  \<close>
\<close>

definition set_config_hash :: "string \<Rightarrow> json \<Rightarrow> json" where
  "set_config_hash config_hash config =
     (case config of
        JObj kvs \<Rightarrow>
          (case map_of kvs ''environment'' of
             None \<Rightarrow>
               JObj (AList.update ''environment''
                       (JObj [(''EDPM_CONFIG_HASH'', JStr config_hash)]) kvs)
           | Some (JObj env) \<Rightarrow>
               JObj (AList.update ''environment''
                       (JObj (AList.update ''EDPM_CONFIG_HASH'' (JStr config_hash) env)) kvs)
           | Some _ \<Rightarrow> config)
      | _ \<Rightarrow> config)"

text \<open>
  Lines 216 to 234 of \<^verbatim>\<open>_update_hashes\<close>: read the stored hash, compare, and
  rewrite the descriptor on a difference.
\<close>

definition reconcile ::
  "json_lib \<Rightarrow> string \<Rightarrow> json \<Rightarrow> string list \<Rightarrow> state \<Rightarrow> error + state" where
  "reconcile lib config startup_config_json config_hashes st =
     (case old_config_hash startup_config_json of
        Inl e \<Rightarrow> Inl e
      | Inr old \<Rightarrow>
          if filter_object_truth config_hashes then
            (if JStr (dash_join config_hashes) = old then Inr st
             else Inr (update_container_config lib config
                         (set_config_hash (dash_join config_hashes) startup_config_json)
                         (module_debug (''Config change detected for '' @ cname_of config
                                        @ '', new hash: '' @ dash_join config_hashes) st)))
          else Inr st)"

text \<open>The body of the loop of \<^verbatim>\<open>_update_hashes\<close>, for one discovered file.\<close>

definition process_config ::
  "json_lib \<Rightarrow> string \<Rightarrow> string \<Rightarrow> state \<Rightarrow> (error + state) option" where
  "process_config lib prefix config st =
     (if startswith (cname_of config) ''hashed-'' then Some (Inr (remove_file config st))
      else
        (case slurp config st of (text, st1) \<Rightarrow>
           (case loads lib text of
              None \<Rightarrow> Some (Inl JSONDecodeError)
            | Some startup_config_json \<Rightarrow>
                (case match_config_volumes prefix startup_config_json of
                   None \<Rightarrow> None
                 | Some (Inl e) \<Rightarrow> Some (Inl e)
                 | Some (Inr config_volumes) \<Rightarrow>
                     (case get_config_hashes config_volumes st1 of (hs, st2) \<Rightarrow>
                        Some (reconcile lib config startup_config_json (filter_None hs) st2))))))"

section \<open>The run\<close>

text \<open>
  \<^verbatim>\<open>_find\<close>. The directory tree is given by what \<^verbatim>\<open>os.walk\<close> yields for a path:
  \<open>None\<close> if the path does not exist, else the \<^verbatim>\<open>(root, dirnames, filenames)\<close>
  triples in the order of the walk. \<^verbatim>\<open>fnmatch.filter(filenames, '*.json')\<close> keeps the
  names that end with \<^verbatim>\<open>.json\<close>.
\<close>

type_synonym walk = "(string \<times> string list \<times> string list) list"

definition fnmatch_filter_json :: "string list \<Rightarrow> string list" where
  "fnmatch_filter_json filenames = filter (\<lambda>n. endswith n ''.json'') filenames"

definition find_configs :: "(string \<Rightarrow> walk option) \<Rightarrow> string \<Rightarrow> state \<Rightarrow> string list \<times> state" where
  "find_configs tree path st =
     (case tree path of
        Some w \<Rightarrow>
          (concat (map (\<lambda>(root, dirnames, filenames).
                          map (join root) (fnmatch_filter_json filenames)) w), st)
      | None \<Rightarrow> ([], module_warn (path @ '' does not exists'') st))"

definition CONTAINER_STARTUP_CONFIG :: string where
  "CONTAINER_STARTUP_CONFIG = ''/var/lib/edpm-config/container-startup-config''"

fun process_configs ::
  "json_lib \<Rightarrow> string \<Rightarrow> string list \<Rightarrow> state \<Rightarrow> (error + state) option" where
  "process_configs lib prefix [] st = Some (Inr st)"
| "process_configs lib prefix (config # configs) st =
     (case process_config lib prefix config st of
        None \<Rightarrow> None
      | Some (Inl e) \<Rightarrow> Some (Inl e)
      | Some (Inr st') \<Rightarrow> process_configs lib prefix configs st')"

definition update_hashes ::
  "json_lib \<Rightarrow> string \<Rightarrow> (string \<Rightarrow> walk option) \<Rightarrow> state \<Rightarrow> (error + state) option" where
  "update_hashes lib prefix tree st =
     (case find_configs tree CONTAINER_STARTUP_CONFIG st of
        (configs, st1) \<Rightarrow> process_configs lib prefix configs st1)"

text \<open>
  The module's parameters, as \<^verbatim>\<open>DOCUMENTATION\<close> declares them, and \<^verbatim>\<open>main\<close>: the
  results start with \<^verbatim>\<open>changed=False\<close>; of the parameters the manager reads only
  \<^verbatim>\<open>config_vol_prefix\<close>.
\<close>

record params =
  check_mode :: bool
  config_vol_prefix :: string
  debug :: bool
  step :: int

definition main ::
  "json_lib \<Rightarrow> params \<Rightarrow> (string \<Rightarrow> walk option) \<Rightarrow> (string \<rightharpoonup> fnode) \<Rightarrow> (error + state) option" where
  "main lib args tree fs =
     update_hashes lib (config_vol_prefix args) tree \<lparr>files = fs, changed = False, messages = []\<rparr>"

section \<open>What the crawl guarantees\<close>

text \<open>
  The loop of \<^verbatim>\<open>_get_config_base\<close> goes on from a path, to its parent, when the path
  starts with the prefix and its parent is neither of the two stop directories.
\<close>

definition keeps_crawling :: "string \<Rightarrow> string \<Rightarrow> string \<Rightarrow> string \<Rightarrow> bool" where
  "keeps_crawling prefix base base_generated path =
     (startswith path prefix \<and> dirname path \<noteq> base \<and> dirname path \<noteq> base_generated)"

text \<open>
  The result of the loop, when it returns one. A returned path is the first path of the
  walk up from the start at which the loop does not go on, it starts with the prefix and
  its parent is one of the two stop directories. An error is the resolution error, and
  the first path of the walk at which the loop does not go on does not start with the
  prefix.
\<close>

definition crawl_post :: "string \<Rightarrow> string \<Rightarrow> string \<Rightarrow> string \<Rightarrow> string \<Rightarrow> error + string \<Rightarrow> bool" where
  "crawl_post volume prefix base bg path y =
     (case y of
        Inr b \<Rightarrow>
          (\<exists>n. b = (dirname ^^ n) path
             \<and> (\<forall>m<n. keeps_crawling prefix base bg ((dirname ^^ m) path))
             \<and> startswith b prefix \<and> (dirname b = base \<or> dirname b = bg))
      | Inl e \<Rightarrow>
          e = ConfigBaseNotFound volume prefix
          \<and> (\<exists>n. (\<forall>m<n. keeps_crawling prefix base bg ((dirname ^^ m) path))
                \<and> \<not> startswith ((dirname ^^ n) path) prefix))"

section \<open>What the digest reads come to\<close>

text \<open>
  \<^verbatim>\<open>_get_config_hash\<close> changes nothing: it calls \<^verbatim>\<open>_slurp\<close> only on a file that
  exists. Its value is a function of the files alone, used below to state what the
  comprehension over the config volumes returns.
\<close>

definition digest :: "(string \<rightharpoonup> fnode) \<Rightarrow> string \<Rightarrow> string option" where
  "digest fs config_volume =
     (case fs (config_volume @ ''.md5sum'') of
        None \<Rightarrow> None
      | Some f \<Rightarrow> Some (strip newline (content f)))"

section \<open>What the comprehension over the volumes comes to\<close>

text \<open>
  The condition of the comprehension in \<^verbatim>\<open>_match_config_volumes\<close>,
  \<^verbatim>\<open>v.startswith(prefix)\<close>, and the base an element contributes when its resolution
  returns one; used to state what the comprehension returns when it returns.
\<close>

definition qualifies :: "string \<Rightarrow> json \<Rightarrow> bool" where
  "qualifies prefix v = (case v of JStr s \<Rightarrow> startswith s prefix | _ \<Rightarrow> False)"

definition resolved :: "string \<Rightarrow> json \<Rightarrow> string option" where
  "resolved prefix v =
     (case v of
        JStr s \<Rightarrow>
          (if startswith s prefix then
             (case get_config_base prefix (split_colon_0 s) of
                Some (Inr b) \<Rightarrow> Some b
              | _ \<Rightarrow> None)
           else None)
      | _ \<Rightarrow> None)"

section \<open>The effect of a run on the files\<close>

text \<open>
  What processing one discovered file does to the files, and whether it sets
  \<^verbatim>\<open>changed\<close>, as a function of the files alone: \<^const>\<open>process_config\<close> without the
  messages. \<^const>\<open>process_config\<close> is shown below to compute exactly this; the
  two-run property of a whole run is proved on it.
\<close>

definition text_of :: "(string \<rightharpoonup> fnode) \<Rightarrow> string \<Rightarrow> string" where
  "text_of fs path = (case fs path of Some f \<Rightarrow> content f | None \<Rightarrow> [])"

definition files_step ::
  "json_lib \<Rightarrow> string \<Rightarrow> string \<Rightarrow> (string \<rightharpoonup> fnode) \<Rightarrow> (error + (string \<rightharpoonup> fnode) \<times> bool) option" where
  "files_step lib prefix config fs =
     (if startswith (cname_of config) ''hashed-'' then Some (Inr (fs(config := None), False))
      else
        (case loads lib (text_of fs config) of
           None \<Rightarrow> Some (Inl JSONDecodeError)
         | Some cfg \<Rightarrow>
             (case match_config_volumes prefix cfg of
                None \<Rightarrow> None
              | Some (Inl e) \<Rightarrow> Some (Inl e)
              | Some (Inr vols) \<Rightarrow>
                  (case old_config_hash cfg of
                     Inl e \<Rightarrow> Some (Inl e)
                   | Inr old \<Rightarrow>
                       if JStr (dash_join (filter_None (map (digest fs) vols))) = old
                       then Some (Inr (fs, False))
                       else Some (Inr (fs(config \<mapsto>
                              \<lparr>content = dumps lib 2
                                   (set_config_hash (dash_join (filter_None (map (digest fs) vols))) cfg),
                               mode = 384\<rparr>), True))))))"

fun files_run ::
  "json_lib \<Rightarrow> string \<Rightarrow> string list \<Rightarrow> (string \<rightharpoonup> fnode) \<Rightarrow> (error + (string \<rightharpoonup> fnode) \<times> bool) option" where
  "files_run lib prefix [] fs = Some (Inr (fs, False))"
| "files_run lib prefix (config # configs) fs =
     (case files_step lib prefix config fs of
        None \<Rightarrow> None
      | Some (Inl e) \<Rightarrow> Some (Inl e)
      | Some (Inr (fs', ch)) \<Rightarrow>
          (case files_run lib prefix configs fs' of
             None \<Rightarrow> None
           | Some (Inl e) \<Rightarrow> Some (Inl e)
           | Some (Inr (fs'', ch')) \<Rightarrow> Some (Inr (fs'', ch \<or> ch'))))"

text \<open>The view of a result of the module that \<^const>\<open>files_step\<close> computes.\<close>

definition effect_of :: "bool \<Rightarrow> (error + (string \<rightharpoonup> fnode) \<times> bool) option \<Rightarrow> (error + (string \<rightharpoonup> fnode) \<times> bool) option" where
  "effect_of was_changed r =
     (case r of
        None \<Rightarrow> None
      | Some (Inl e) \<Rightarrow> Some (Inl e)
      | Some (Inr (fs, ch)) \<Rightarrow> Some (Inr (fs, was_changed \<or> ch)))"

definition view :: "(error + state) option \<Rightarrow> (error + (string \<rightharpoonup> fnode) \<times> bool) option" where
  "view r =
     (case r of
        None \<Rightarrow> None
      | Some (Inl e) \<Rightarrow> Some (Inl e)
      | Some (Inr st) \<Rightarrow> Some (Inr (files st, changed st)))"

section \<open>An example host\<close>

text \<open>
  The values the worked examples below run on: the default prefix, a directory of
  descriptors, the digest file of the \<^verbatim>\<open>nova\<close> config volume, and a JSON library
  that knows the documents of the examples by their text.
\<close>

definition default_prefix :: string where
  "default_prefix = ''/var/lib/config-data''"

definition nova_path :: string where
  "nova_path = ''/var/lib/edpm-config/container-startup-config/nova_compute.json''"

definition hashed_path :: string where
  "hashed_path = ''/var/lib/edpm-config/container-startup-config/hashed-nova_compute.json''"

definition ovn_path :: string where
  "ovn_path = ''/var/lib/edpm-config/container-startup-config/ovn_controller.json''"

definition nova_config :: json where
  "nova_config = JObj [(''volumes'', JList [JStr ''/var/lib/config-data/nova:/etc/nova:ro''])]"

definition nova_config_hashed :: json where
  "nova_config_hashed =
     JObj [(''volumes'', JList [JStr ''/var/lib/config-data/nova:/etc/nova:ro'']),
           (''environment'', JObj [(''EDPM_CONFIG_HASH'', JStr ''abc123'')])]"

text \<open>A descriptor with a stored hash whose only config volume has no digest file.\<close>

definition ovn_config :: json where
  "ovn_config =
     JObj [(''volumes'', JList [JStr ''/var/lib/config-data/ovn:/etc/ovn:ro'']),
           (''environment'', JObj [(''EDPM_CONFIG_HASH'', JStr ''0f3a'')])]"

definition ovn_config_emptied :: json where
  "ovn_config_emptied =
     JObj [(''volumes'', JList [JStr ''/var/lib/config-data/ovn:/etc/ovn:ro'']),
           (''environment'', JObj [(''EDPM_CONFIG_HASH'', JStr [])])]"

text \<open>A descriptor whose \<^verbatim>\<open>volumes\<close> is a mapping, and one that is a list at top level.\<close>

definition mapping_config :: json where
  "mapping_config = JObj [(''volumes'', JObj [(''/etc/hosts'', JStr ''/etc/hosts:ro'')])]"

definition list_config :: json where
  "list_config = JList [JStr ''/var/lib/config-data/nova:/etc/nova:ro'']"

definition example_docs :: "(string \<times> json) list" where
  "example_docs =
     [(''nova_compute, as deployed'', nova_config),
      (''nova_compute, with hash abc123'', nova_config_hashed),
      (''ovn_controller, with hash 0f3a'', ovn_config),
      (''ovn_controller, with empty hash'', ovn_config_emptied),
      (''volumes as a mapping'', mapping_config),
      (''a list of volumes'', list_config)]"

definition example_lib :: json_lib where
  "example_lib =
     \<lparr>loads = map_of example_docs,
      dumps = (\<lambda>indent j. case List.find (\<lambda>d. snd d = j) example_docs of
                              Some d \<Rightarrow> fst d | None \<Rightarrow> [])\<rparr>"

definition example_files :: "string \<rightharpoonup> fnode" where
  "example_files =
     [nova_path \<mapsto> \<lparr>content = ''nova_compute, as deployed'', mode = 420\<rparr>,
      hashed_path \<mapsto> \<lparr>content = ''not a JSON document'', mode = 420\<rparr>,
      ovn_path \<mapsto> \<lparr>content = ''ovn_controller, with hash 0f3a'', mode = 420\<rparr>,
      ''/var/lib/config-data/nova.md5sum'' \<mapsto> \<lparr>content = ''abc123'' @ [newline], mode = 420\<rparr>]"

definition example_state :: state where
  "example_state = \<lparr>files = example_files, changed = False, messages = []\<rparr>"

definition example_tree :: "string \<Rightarrow> walk option" where
  "example_tree path =
     (if path = CONTAINER_STARTUP_CONFIG
      then Some [(CONTAINER_STARTUP_CONFIG, [],
                  [''nova_compute.json'', ''hashed-nova_compute.json'', ''ovn_controller.json''])]
      else None)"

definition example_params :: "bool \<Rightarrow> params" where
  "example_params check = \<lparr>check_mode = check, config_vol_prefix = default_prefix, debug = False, step = 6\<rparr>"

text \<open>The example state after the descriptor of \<^verbatim>\<open>nova_compute\<close> has been rewritten.\<close>

definition example_state_after :: state where
  "example_state_after =
     update_container_config example_lib nova_path nova_config_hashed
       (module_debug ''Config change detected for nova_compute, new hash: abc123'' example_state)"

text \<open>
  The example state after a whole run: the obsolete file is removed and the descriptor
  of \<^verbatim>\<open>ovn_controller\<close>, none of whose digests exists, is rewritten too.
\<close>

definition example_state_final :: state where
  "example_state_final =
     update_container_config example_lib ovn_path ovn_config_emptied
       (module_debug ''Config change detected for ovn_controller, new hash: ''
          (remove_file hashed_path example_state_after))"

text \<open>The example state with another text in the descriptor of \<^verbatim>\<open>nova_compute\<close>.\<close>

definition example_state_with :: "string \<Rightarrow> state" where
  "example_state_with text =
     example_state\<lparr>files := example_files(nova_path \<mapsto> \<lparr>content = text, mode = 420\<rparr>)\<rparr>"


text \<open>
  A descriptor with two config volumes, which are not listed in the order of their
  bases, a mount outside the prefix, further fields, and a stored hash that is out of
  date; its state has a digest file for each of the two bases. The JSON library of this
  example knows the descriptor as deployed and as rewritten.
\<close>

definition libvirt_path :: string where
  "libvirt_path = ''/var/lib/edpm-config/container-startup-config/nova_libvirt.json''"

definition libvirt_config :: json where
  "libvirt_config =
     JObj [(''image'', JStr ''quay.io/podified/nova-libvirt:current''),
           (''volumes'', JList [JStr ''/var/lib/config-data/nova/etc/nova:/etc/nova:ro'',
                                JStr ''/etc/hosts:/etc/hosts:ro'',
                                JStr ''/var/lib/config-data/libvirt/etc/libvirt:/etc/libvirt:ro'']),
           (''environment'', JObj [(''KOLLA_CONFIG_STRATEGY'', JStr ''COPY_ALWAYS''),
                                   (''EDPM_CONFIG_HASH'', JStr ''7be1'')])]"

definition libvirt_config_hashed :: json where
  "libvirt_config_hashed =
     JObj [(''image'', JStr ''quay.io/podified/nova-libvirt:current''),
           (''volumes'', JList [JStr ''/var/lib/config-data/nova/etc/nova:/etc/nova:ro'',
                                JStr ''/etc/hosts:/etc/hosts:ro'',
                                JStr ''/var/lib/config-data/libvirt/etc/libvirt:/etc/libvirt:ro'']),
           (''environment'', JObj [(''KOLLA_CONFIG_STRATEGY'', JStr ''COPY_ALWAYS''),
                                   (''EDPM_CONFIG_HASH'', JStr ''9d2c-abc123'')])]"

definition libvirt_lib :: json_lib where
  "libvirt_lib =
     \<lparr>loads = map_of [(''nova_libvirt, as deployed'', libvirt_config),
                      (''nova_libvirt, with hash 9d2c-abc123'', libvirt_config_hashed)],
      dumps = (\<lambda>indent j. if j = libvirt_config_hashed then ''nova_libvirt, with hash 9d2c-abc123''
                           else if j = libvirt_config then ''nova_libvirt, as deployed'' else [])\<rparr>"

definition libvirt_state :: state where
  "libvirt_state =
     example_state\<lparr>files := example_files
       (libvirt_path \<mapsto> \<lparr>content = ''nova_libvirt, as deployed'', mode = 420\<rparr>,
        ''/var/lib/config-data/libvirt.md5sum'' \<mapsto> \<lparr>content = ''9d2c'' @ [newline], mode = 420\<rparr>)\<rparr>"

section \<open>Properties of the path functions\<close>

lemma length_rstrip_le: "length (rstrip c s) \<le> length s"
  unfolding rstrip_def by (metis length_dropWhile_le length_rev)

lemma upto_last_sep_basename: "upto_last_sep p @ basename p = p"
  unfolding upto_last_sep_def basename_def
  by (metis rev_append rev_rev_ident takeWhile_dropWhile_id)

lemma rstrip_snoc_same: "rstrip c (s @ [c]) = rstrip c s"
  by (simp add: rstrip_def)

lemma length_dirname_less:
  assumes "\<exists>x \<in> set p. x \<noteq> sep"
  shows "length (dirname p) < length p"
proof (cases "basename p = []")
  case False
  have "length (upto_last_sep p) < length p"
    using False upto_last_sep_basename [of p]
    by (metis append_self_conv length_append length_greater_0_conv less_add_same_cancel1)
  moreover have "length (dirname p) \<le> length (upto_last_sep p)"
    by (simp add: dirname_def length_rstrip_le)
  ultimately show ?thesis by simp
next
  case True
  then have eq: "upto_last_sep p = p"
    using upto_last_sep_basename [of p] by simp
  from assms have ne: "p \<noteq> []" by auto
  from assms have nrep: "p \<noteq> replicate (length p) sep"
    by (metis in_set_replicate)
  from True ne have "last p = sep"
    unfolding basename_def
    by (metis (mono_tags, lifting) hd_rev rev_is_Nil_conv takeWhile_eq_Nil_iff rev_rev_ident)
  then obtain q where q: "p = q @ [sep]"
    using ne by (metis append_butlast_last_id)
  have "dirname p = rstrip sep p"
    using eq ne nrep by (simp add: dirname_def)
  also have "\<dots> = rstrip sep q" by (simp add: q rstrip_snoc_same)
  finally have "length (dirname p) \<le> length q" by (simp add: length_rstrip_le)
  then show ?thesis by (simp add: q)
qed

lemma startswith_append: "startswith s p \<longleftrightarrow> (\<exists>r. s = p @ r)"
  unfolding startswith_def
  by (metis append_eq_conv_conj append_take_drop_id)

lemma rstrip_nonempty_has_nonsep:
  assumes "rstrip sep prefix \<noteq> []"
  shows "\<exists>x \<in> set prefix. x \<noteq> sep"
proof (rule ccontr)
  assume "\<not> ?thesis"
  then have "dropWhile (\<lambda>x. x = sep) (rev prefix) = []" by simp
  with assms show False by (simp add: rstrip_def)
qed

lemma crawl_total:
  assumes "rstrip sep prefix \<noteq> []"
  shows "(\<exists>b. crawl volume prefix base bg path = Some (Inr b))
       \<or> crawl volume prefix base bg path = Some (Inl (ConfigBaseNotFound volume prefix))"
proof (induction path rule: length_induct)
  case (1 path)
  show ?case
  proof (cases "startswith path prefix")
    case False
    then show ?thesis by (subst (1 2) crawl.simps) simp
  next
    case True
    then have "\<exists>x \<in> set path. x \<noteq> sep"
      using rstrip_nonempty_has_nonsep [OF assms] by (auto simp: startswith_append)
    then have less: "length (dirname path) < length path" by (rule length_dirname_less)
    show ?thesis
    proof (cases "dirname path = base \<or> dirname path = bg")
      case True
      with \<open>startswith path prefix\<close> show ?thesis by (subst crawl.simps) simp
    next
      case False
      with \<open>startswith path prefix\<close> 1 less show ?thesis
        by (subst (1 2) crawl.simps) simp
    qed
  qed
qed

lemma upto_last_sep_under: "upto_last_sep (b @ sep # r) = b @ sep # upto_last_sep r"
  by (simp add: upto_last_sep_def dropWhile_append)

lemma rstrip_id: "b \<noteq> [] \<Longrightarrow> last b \<noteq> sep \<Longrightarrow> rstrip sep b = b"
  by (cases b rule: rev_cases) (simp_all add: rstrip_def)

lemma last_rstrip: "rstrip c s \<noteq> [] \<Longrightarrow> last (rstrip c s) \<noteq> c"
  using hd_dropWhile [of "\<lambda>x. x = c" "rev s"] by (simp add: rstrip_def last_rev)

lemma not_replicate_sep: "x \<in> set h \<Longrightarrow> x \<noteq> sep \<Longrightarrow> h \<noteq> replicate n sep"
  by auto

lemma rstrip_append:
  "rstrip c (a @ b) = (if \<forall>x \<in> set b. x = c then rstrip c a else a @ rstrip c b)"
  by (simp add: rstrip_def dropWhile_append)

lemma rstrip_seps_all:
  "\<forall>x \<in> set u. x = c \<Longrightarrow> rstrip c (a @ replicate n c @ u) = rstrip c a"
  by (auto simp: rstrip_append)

lemma rstrip_seps_some:
  "\<not> (\<forall>x \<in> set u. x = c) \<Longrightarrow> rstrip c (a @ replicate n c @ u) = a @ replicate n c @ rstrip c u"
  by (auto simp: rstrip_append)

lemma rstrip_decomp: "\<exists>k. s = rstrip c s @ replicate k c"
proof (induction s rule: rev_induct)
  case Nil
  then show ?case by (simp add: rstrip_def)
next
  case (snoc x xs)
  show ?case
  proof (cases "x = c")
    case False
    then have "rstrip c (xs @ [x]) = xs @ [x]" by (simp add: rstrip_def)
    then have "xs @ [x] = rstrip c (xs @ [x]) @ replicate 0 c" by simp
    then show ?thesis by (rule exI)
  next
    case True
    from snoc obtain k where k: "xs = rstrip c xs @ replicate k c" by blast
    have "rstrip c (xs @ [x]) = rstrip c xs" using True by (simp add: rstrip_def)
    moreover have "xs @ [x] = rstrip c xs @ replicate (Suc k) c"
      using k True by (metis append_assoc replicate_append_same replicate_Suc)
    ultimately have "xs @ [x] = rstrip c (xs @ [x]) @ replicate (Suc k) c" by simp
    then show ?thesis by (rule exI)
  qed
qed

lemma upto_last_sep_prefix: "\<exists>r. p = upto_last_sep p @ r"
  using upto_last_sep_basename [of p] by metis

lemma dirname_prefix: "\<exists>r. p = dirname p @ r"
proof -
  obtain r where r: "p = upto_last_sep p @ r" using upto_last_sep_prefix by blast
  obtain k where k: "upto_last_sep p = rstrip sep (upto_last_sep p) @ replicate k sep"
    using rstrip_decomp by blast
  have "dirname p = upto_last_sep p \<or> dirname p = rstrip sep (upto_last_sep p)"
    by (simp add: dirname_def)
  then show ?thesis
  proof
    assume "dirname p = upto_last_sep p"
    with r show ?thesis by metis
  next
    assume d: "dirname p = rstrip sep (upto_last_sep p)"
    have "p = rstrip sep (upto_last_sep p) @ (replicate k sep @ r)"
      using r k by (metis append_assoc)
    with d show ?thesis by metis
  qed
qed

lemma funpow_dirname_prefix: "\<exists>r. p = (dirname ^^ n) p @ r"
proof (induction n)
  case 0
  then show ?case by simp
next
  case (Suc n)
  then obtain r where r: "p = (dirname ^^ n) p @ r" by blast
  obtain r' where r': "(dirname ^^ n) p = dirname ((dirname ^^ n) p) @ r'"
    using dirname_prefix by blast
  have "p = (dirname ^^ Suc n) p @ (r' @ r)"
    using r r' by (metis append_assoc funpow.simps(2) o_apply)
  then show ?case by (rule exI)
qed

lemma startswith_trans: "startswith b q \<Longrightarrow> p = b @ r \<Longrightarrow> startswith p q"
  by (auto simp: startswith_append)

lemma last_upto_last_sep: "upto_last_sep p \<noteq> [] \<Longrightarrow> last (upto_last_sep p) = sep"
  using hd_dropWhile [of "\<lambda>x. x \<noteq> sep" "rev p"]
  by (simp add: upto_last_sep_def last_rev)

lemma join_ansible_generated:
  assumes "base \<noteq> []" "last base \<noteq> sep"
  shows "join base ''ansible-generated'' = base @ sep # ''ansible-generated''"
proof -
  have "\<not> endswith base [sep]"
    using assms by (cases base rule: rev_cases) (simp_all add: endswith_def startswith_def)
  then show ?thesis using assms by (simp add: join_def startswith_def sep_def)
qed

lemma stop_under_base:
  assumes base: "base \<noteq> []" "last base \<noteq> sep"
    and stop: "dirname b = base \<or> dirname b = join base ''ansible-generated''"
  shows "startswith b (base @ [sep])"
  using stop
proof
  assume bg: "dirname b = join base ''ansible-generated''"
  obtain r where "b = dirname b @ r" using dirname_prefix by blast
  then have "b = (base @ [sep]) @ (''ansible-generated'' @ r)"
    by (simp add: bg join_ansible_generated [OF base])
  then show ?thesis unfolding startswith_append by (rule exI)
next
  assume d: "dirname b = base"
  let ?h = "upto_last_sep b"
  have ne: "?h \<noteq> []"
  proof
    assume "?h = []"
    then have "dirname b = []" by (simp add: dirname_def)
    with d base show False by simp
  qed
  have strip: "dirname b = rstrip sep ?h"
  proof (rule ccontr)
    assume "dirname b \<noteq> rstrip sep ?h"
    then have "dirname b = ?h" by (simp add: dirname_def split: if_splits)
    with d have "last base = sep" using last_upto_last_sep [OF ne] by simp
    with base show False by simp
  qed
  obtain k where k: "?h = rstrip sep ?h @ replicate k sep" using rstrip_decomp by blast
  have "k \<noteq> 0"
  proof
    assume "k = 0"
    with k have "rstrip sep ?h = ?h" by simp
    with strip d have "last base = sep" using last_upto_last_sep [OF ne] by simp
    with base show False by simp
  qed
  then obtain k' where "k = Suc k'" by (cases k) auto
  with k strip d have h: "?h = (base @ [sep]) @ replicate k' sep" by simp
  obtain r where "b = ?h @ r" using upto_last_sep_prefix by blast
  then have "b = (base @ [sep]) @ (replicate k' sep @ r)" using h by (metis append_assoc)
  then show ?thesis unfolding startswith_append by (rule exI)
qed

lemma dirname_under_seps:
  assumes "base \<noteq> []" "last base \<noteq> sep"
  shows "dirname (base @ replicate (Suc j) sep @ r) = base
       \<or> (\<exists>r'. dirname (base @ replicate (Suc j) sep @ r) = base @ replicate (Suc j) sep @ r')"
proof -
  let ?p = "base @ replicate (Suc j) sep @ r"
  let ?u = "upto_last_sep r"
  have p: "?p = (base @ replicate j sep) @ sep # r"
    by (simp add: replicate_append_same)
  have h: "upto_last_sep ?p = base @ replicate (Suc j) sep @ ?u"
    unfolding p upto_last_sep_under by (simp add: replicate_append_same)
  have "last base \<in> set (upto_last_sep ?p)" unfolding h using assms by simp
  then have "upto_last_sep ?p \<noteq> replicate (length (upto_last_sep ?p)) sep"
    using assms(2) by (rule not_replicate_sep)
  moreover have "upto_last_sep ?p \<noteq> []" unfolding h using assms by simp
  ultimately have "dirname ?p = rstrip sep (upto_last_sep ?p)"
    by (simp only: dirname_def simp_thms if_True)
  then have d: "dirname ?p = rstrip sep (base @ replicate (Suc j) sep @ ?u)"
    by (simp only: h)
  show ?thesis
  proof (cases "\<forall>x \<in> set ?u. x = sep")
    case True
    then have "rstrip sep (base @ replicate (Suc j) sep @ ?u) = rstrip sep base"
      by (rule rstrip_seps_all)
    also have "\<dots> = base" using assms by (rule rstrip_id)
    finally show ?thesis using d by (simp only: simp_thms)
  next
    case False
    then have "rstrip sep (base @ replicate (Suc j) sep @ ?u)
        = base @ replicate (Suc j) sep @ rstrip sep ?u"
      by (rule rstrip_seps_some)
    with d have "dirname ?p = base @ replicate (Suc j) sep @ rstrip sep ?u" by (simp only:)
    then have "\<exists>r'. dirname ?p = base @ replicate (Suc j) sep @ r'" by (rule exI)
    then show ?thesis by (rule disjI2)
  qed
qed

lemma crawl_under_seps:
  assumes base: "base \<noteq> []" "last base \<noteq> sep"
    and prefix: "prefix = base @ replicate k sep" "k \<le> Suc j"
  shows "\<exists>b. crawl volume prefix base bg (base @ replicate (Suc j) sep @ r) = Some (Inr b)"
proof (induction r rule: length_induct)
  case (1 r)
  let ?p = "base @ replicate (Suc j) sep @ r"
  have "replicate (Suc j) sep = replicate k sep @ replicate (Suc j - k) sep"
    using prefix(2) by (simp add: replicate_add [symmetric])
  then have "?p = prefix @ (replicate (Suc j - k) sep @ r)"
    unfolding prefix(1) by (metis append_assoc)
  then have sw: "startswith ?p prefix" unfolding startswith_append by (rule exI)
  have "\<exists>x \<in> set ?p. x \<noteq> sep"
    using base by (intro bexI [of _ "last base"]) simp_all
  then have less: "length (dirname ?p) < length ?p" by (rule length_dirname_less)
  show ?case
  proof (cases "dirname ?p = base \<or> dirname ?p = bg")
    case True
    with sw show ?thesis by (subst crawl.simps) simp
  next
    case False
    then obtain r' where r': "dirname ?p = base @ replicate (Suc j) sep @ r'"
      using dirname_under_seps [OF base, of j r] by auto
    with less have "length r' < length r" by simp
    with 1 have "\<exists>b. crawl volume prefix base bg (base @ replicate (Suc j) sep @ r') = Some (Inr b)"
      by blast
    with sw False r' show ?thesis by (subst crawl.simps) simp
  qed
qed


section \<open>Properties of base resolution\<close>

lemma funpow_shift: "(f ^^ n) (f x) = (f ^^ Suc n) x"
  by (simp only: funpow_Suc_right o_apply)

lemma keeps_crawling_step:
  assumes "keeps_crawling prefix base bg path"
    and "\<forall>m<n. keeps_crawling prefix base bg ((dirname ^^ m) (dirname path))"
  shows "\<forall>m<Suc n. keeps_crawling prefix base bg ((dirname ^^ m) path)"
proof (intro allI impI)
  fix m assume m: "m < Suc n"
  show "keeps_crawling prefix base bg ((dirname ^^ m) path)"
  proof (cases m)
    case 0
    with assms(1) show ?thesis by simp
  next
    case (Suc k)
    with m have "k < n" by simp
    with assms(2) have "keeps_crawling prefix base bg ((dirname ^^ k) (dirname path))" by blast
    then show ?thesis unfolding Suc by (simp only: funpow_shift)
  qed
qed

lemma crawl_result:
  assumes "crawl volume prefix base bg path = Some y"
  shows "crawl_post volume prefix base bg path y"
  using assms
proof (induct rule: crawl.raw_induct)
  case (1 f volume prefix base bg path y)
  have none: "\<forall>m<0. keeps_crawling prefix base bg ((dirname ^^ m) path)" by simp
  show ?case
  proof (cases "startswith path prefix")
    case False
    with 1(2) have y: "y = Inl (ConfigBaseNotFound volume prefix)" by simp
    from False have "\<not> startswith ((dirname ^^ 0) path) prefix" by simp
    with none have "\<exists>n. (\<forall>m<n. keeps_crawling prefix base bg ((dirname ^^ m) path))
        \<and> \<not> startswith ((dirname ^^ n) path) prefix" by blast
    then show ?thesis unfolding y crawl_post_def by simp
  next
    case sw: True
    show ?thesis
    proof (cases "dirname path = base \<or> dirname path = bg")
      case True
      with 1(2) sw have y: "y = Inr path" by simp
      have "path = (dirname ^^ 0) path" by simp
      with none True sw have "\<exists>n. path = (dirname ^^ n) path
          \<and> (\<forall>m<n. keeps_crawling prefix base bg ((dirname ^^ m) path))
          \<and> startswith path prefix \<and> (dirname path = base \<or> dirname path = bg)" by blast
      then show ?thesis unfolding y crawl_post_def by simp
    next
      case False
      with sw have keep: "keeps_crawling prefix base bg path" by (simp add: keeps_crawling_def)
      from False 1(2) sw have rec: "f volume prefix base bg (dirname path) = Some y" by simp
      from 1(3) sw False have "crawl volume prefix base bg (dirname path) = Some y"
        by (subst (asm) crawl.simps) simp
      note ih = 1(1) [OF rec this, unfolded crawl_post_def]
      show ?thesis
      proof (cases y)
        case (Inl e)
        with ih obtain n where e: "e = ConfigBaseNotFound volume prefix"
          and walk: "\<forall>m<n. keeps_crawling prefix base bg ((dirname ^^ m) (dirname path))"
          and n: "\<not> startswith ((dirname ^^ n) (dirname path)) prefix" by auto
        from n have "\<not> startswith ((dirname ^^ Suc n) path) prefix"
          by (simp only: funpow_shift simp_thms)
        with keeps_crawling_step [OF keep walk]
        have "\<exists>n. (\<forall>m<n. keeps_crawling prefix base bg ((dirname ^^ m) path))
            \<and> \<not> startswith ((dirname ^^ n) path) prefix" by blast
        with e show ?thesis unfolding Inl crawl_post_def by simp
      next
        case (Inr b)
        with ih obtain n where b: "startswith b prefix" "dirname b = base \<or> dirname b = bg"
          and walk: "\<forall>m<n. keeps_crawling prefix base bg ((dirname ^^ m) (dirname path))"
          and n: "b = (dirname ^^ n) (dirname path)" by auto
        from n have "b = (dirname ^^ Suc n) path"
          by (simp only: funpow_shift simp_thms)
        with keeps_crawling_step [OF keep walk] b
        have "\<exists>n. b = (dirname ^^ n) path
            \<and> (\<forall>m<n. keeps_crawling prefix base bg ((dirname ^^ m) path))
            \<and> startswith b prefix \<and> (dirname b = base \<or> dirname b = bg)" by blast
        then show ?thesis unfolding Inr crawl_post_def by simp
      qed
    qed
  qed
qed (fact assms)

lemma get_config_base_returns_iff:
  assumes ne: "rstrip sep prefix \<noteq> []"
  shows "(\<exists>b. get_config_base prefix volume = Some (Inr b))
       \<longleftrightarrow> startswith volume prefix \<and> startswith volume (rstrip sep prefix @ [sep])"
proof
  let ?base = "rstrip sep prefix"
  let ?bg = "join ?base ''ansible-generated''"
  have last: "last ?base \<noteq> sep" using ne by (rule last_rstrip)
  {
    assume "\<exists>b. get_config_base prefix volume = Some (Inr b)"
    then obtain b where "crawl volume prefix ?base ?bg volume = Some (Inr b)"
      by (auto simp: get_config_base_def)
    then have "crawl_post volume prefix ?base ?bg volume (Inr b)" by (rule crawl_result)
    then obtain n where b: "b = (dirname ^^ n) volume" and sw: "startswith b prefix"
      and stop: "dirname b = ?base \<or> dirname b = ?bg"
      by (auto simp: crawl_post_def)
    obtain r where r: "volume = b @ r" using funpow_dirname_prefix [of volume n] b by blast
    from stop_under_base [OF ne last stop] r have "startswith volume (?base @ [sep])"
      by (rule startswith_trans)
    moreover from sw r have "startswith volume prefix" by (rule startswith_trans)
    ultimately show "startswith volume prefix \<and> startswith volume (?base @ [sep])" by simp
  }
  {
    assume a: "startswith volume prefix \<and> startswith volume (?base @ [sep])"
    obtain k where k: "prefix = ?base @ replicate k sep" using rstrip_decomp by blast
    show "\<exists>b. get_config_base prefix volume = Some (Inr b)"
    proof (cases k)
      case 0
      from a obtain r where "volume = (?base @ [sep]) @ r" unfolding startswith_append by blast
      then have r: "volume = ?base @ replicate (Suc 0) sep @ r" by simp
      have "k \<le> Suc 0" using 0 by simp
      with crawl_under_seps [OF ne last k, of 0 volume ?bg r]
      obtain b where "crawl volume prefix ?base ?bg (?base @ replicate (Suc 0) sep @ r) = Some (Inr b)"
        by blast
      then have "crawl volume prefix ?base ?bg volume = Some (Inr b)"
        by (simp only: r [symmetric])
      then show ?thesis unfolding get_config_base_def by (rule exI)
    next
      case (Suc j)
      from a obtain r where "volume = prefix @ r" unfolding startswith_append by blast
      then have r: "volume = ?base @ replicate (Suc j) sep @ r"
        using k Suc by (metis append_assoc)
      have "k \<le> Suc j" using Suc by simp
      with crawl_under_seps [OF ne last k, of j volume ?bg r]
      obtain b where "crawl volume prefix ?base ?bg (?base @ replicate (Suc j) sep @ r) = Some (Inr b)"
        by blast
      then have "crawl volume prefix ?base ?bg volume = Some (Inr b)"
        by (simp only: r [symmetric])
      then show ?thesis unfolding get_config_base_def by (rule exI)
    qed
  }
qed

text \<open>
  Claim C5. If the prefix is not empty after its trailing separators are stripped, the
  crawl of \<^verbatim>\<open>_get_config_base\<close> terminates for every volume source (whether or not
  it starts with the prefix), in one of two ways. Either it returns a path: the first
  path of the walk up the parents of the source whose parent is the stripped prefix or
  that prefix joined with \<^verbatim>\<open>ansible-generated\<close>, every path of the walk up to it
  starting with the prefix. Or it fails with the resolution error naming the volume and
  the prefix: the walk has produced a path that does not start with the prefix, and at
  no path before it was a stop directory the parent.
\<close>

theorem get_config_base_terminates:
  assumes "rstrip sep prefix \<noteq> []"
  shows "(\<exists>b n. get_config_base prefix volume = Some (Inr b)
            \<and> b = (dirname ^^ n) volume
            \<and> (\<forall>m<n. keeps_crawling prefix (rstrip sep prefix)
                        (join (rstrip sep prefix) ''ansible-generated'') ((dirname ^^ m) volume))
            \<and> startswith b prefix
            \<and> (dirname b = rstrip sep prefix
                \<or> dirname b = join (rstrip sep prefix) ''ansible-generated''))
       \<or> (\<exists>n. get_config_base prefix volume = Some (Inl (ConfigBaseNotFound volume prefix))
            \<and> (\<forall>m<n. keeps_crawling prefix (rstrip sep prefix)
                        (join (rstrip sep prefix) ''ansible-generated'') ((dirname ^^ m) volume))
            \<and> \<not> startswith ((dirname ^^ n) volume) prefix)"
proof -
  let ?base = "rstrip sep prefix"
  let ?bg = "join ?base ''ansible-generated''"
  from crawl_total [OF assms, of volume ?base ?bg volume]
  consider b where "crawl volume prefix ?base ?bg volume = Some (Inr b)"
    | "crawl volume prefix ?base ?bg volume = Some (Inl (ConfigBaseNotFound volume prefix))"
    by blast
  then show ?thesis
  proof cases
    case 1
    from crawl_result [OF 1] obtain n where "b = (dirname ^^ n) volume"
      "\<forall>m<n. keeps_crawling prefix ?base ?bg ((dirname ^^ m) volume)"
      "startswith b prefix" "dirname b = ?base \<or> dirname b = ?bg"
      unfolding crawl_post_def by auto
    with 1 have "\<exists>b n. get_config_base prefix volume = Some (Inr b)
            \<and> b = (dirname ^^ n) volume
            \<and> (\<forall>m<n. keeps_crawling prefix ?base ?bg ((dirname ^^ m) volume))
            \<and> startswith b prefix \<and> (dirname b = ?base \<or> dirname b = ?bg)"
      unfolding get_config_base_def by blast
    then show ?thesis by (rule disjI1)
  next
    case 2
    from crawl_result [OF 2] obtain n where
      "\<forall>m<n. keeps_crawling prefix ?base ?bg ((dirname ^^ m) volume)"
      "\<not> startswith ((dirname ^^ n) volume) prefix"
      unfolding crawl_post_def by auto
    with 2 have "\<exists>n. get_config_base prefix volume = Some (Inl (ConfigBaseNotFound volume prefix))
            \<and> (\<forall>m<n. keeps_crawling prefix ?base ?bg ((dirname ^^ m) volume))
            \<and> \<not> startswith ((dirname ^^ n) volume) prefix"
      unfolding get_config_base_def by blast
    then show ?thesis by (rule disjI2)
  qed
qed


text \<open>
  The claim at a prefix with a trailing separator: a source that resolves, after one
  step up, and a source beside the prefix, which fails.
\<close>

theorem get_config_base_terminates_witness:
  "rstrip sep ''/var/lib/config-data/'' \<noteq> []
   \<and> get_config_base ''/var/lib/config-data/'' ''/var/lib/config-data/neutron/etc''
       = Some (Inr ''/var/lib/config-data/neutron'')
   \<and> (\<exists>n. ''/var/lib/config-data/neutron'' = (dirname ^^ n) ''/var/lib/config-data/neutron/etc'')
   \<and> get_config_base ''/var/lib/config-data/'' ''/var/lib/config-data-old/neutron''
       = Some (Inl (ConfigBaseNotFound ''/var/lib/config-data-old/neutron'' ''/var/lib/config-data/''))
   \<and> (\<exists>n. \<not> startswith ((dirname ^^ n) ''/var/lib/config-data-old/neutron'') ''/var/lib/config-data/'')"
proof -
  let ?prefix = "''/var/lib/config-data/''"
  have h: "rstrip sep ?prefix \<noteq> []" by (simp add: rstrip_def sep_def)
  have e1: "get_config_base ?prefix ''/var/lib/config-data/neutron/etc''
      = Some (Inr ''/var/lib/config-data/neutron'')"
    by (simp add: get_config_base_def crawl.simps dirname_def upto_last_sep_def rstrip_def sep_def
        join_def startswith_def endswith_def)
  have e2: "get_config_base ?prefix ''/var/lib/config-data-old/neutron''
      = Some (Inl (ConfigBaseNotFound ''/var/lib/config-data-old/neutron'' ?prefix))"
    by (simp add: get_config_base_def crawl.simps dirname_def upto_last_sep_def rstrip_def sep_def
        join_def startswith_def endswith_def)
  from get_config_base_terminates [OF h, of "''/var/lib/config-data/neutron/etc''"]
  have "(\<exists>b n. get_config_base ?prefix ''/var/lib/config-data/neutron/etc'' = Some (Inr b)
            \<and> b = (dirname ^^ n) ''/var/lib/config-data/neutron/etc'')
      \<or> (\<exists>e. get_config_base ?prefix ''/var/lib/config-data/neutron/etc'' = Some (Inl e))"
    by blast
  then have w1: "\<exists>n. ''/var/lib/config-data/neutron'' = (dirname ^^ n) ''/var/lib/config-data/neutron/etc''"
    unfolding e1 by simp
  from get_config_base_terminates [OF h, of "''/var/lib/config-data-old/neutron''"]
  have "(\<exists>b. get_config_base ?prefix ''/var/lib/config-data-old/neutron'' = Some (Inr b))
      \<or> (\<exists>e. get_config_base ?prefix ''/var/lib/config-data-old/neutron'' = Some (Inl e)
            \<and> (\<exists>n. \<not> startswith ((dirname ^^ n) ''/var/lib/config-data-old/neutron'') ?prefix))"
    by blast
  then have w2: "\<exists>n. \<not> startswith ((dirname ^^ n) ''/var/lib/config-data-old/neutron'') ?prefix"
    unfolding e2 by simp
  from h e1 w1 e2 w2 show ?thesis by (intro conjI)
qed


text \<open>
  Claim C1 does not hold as stated: a source can start with the prefix as a string
  without lying below it, and then no path is returned. With prefix
  \<^verbatim>\<open>/var/lib/config-data\<close> the absolute source
  \<^verbatim>\<open>/var/lib/config-data-old/nova/etc\<close> starts with the prefix and resolution fails.
\<close>

theorem get_config_base_counterexample:
  "startswith ''/var/lib/config-data-old/nova/etc'' ''/var/lib/config-data''
   \<and> startswith ''/var/lib/config-data-old/nova/etc'' [sep]
   \<and> get_config_base ''/var/lib/config-data'' ''/var/lib/config-data-old/nova/etc''
       = Some (Inl (ConfigBaseNotFound ''/var/lib/config-data-old/nova/etc'' ''/var/lib/config-data''))"
  by (simp add: get_config_base_def crawl.simps dirname_def upto_last_sep_def rstrip_def sep_def
        join_def startswith_def endswith_def)

text \<open>
  Claim C1, amended. Whenever base resolution returns a path, the path starts with the
  prefix, its parent directory is the separator-stripped prefix or that prefix joined
  with \<^verbatim>\<open>ansible-generated\<close>, and it is the first such path on the walk from the
  source up its parents. When the stripped prefix is not empty, resolution returns a
  path exactly for the sources that start with the prefix and with the stripped prefix
  followed by a separator; for every other source, the stripped prefix itself among
  them, it fails with the resolution error naming the source and the prefix. The two
  examples of the claim hold.
\<close>

theorem get_config_base_correct:
  "(get_config_base prefix volume = Some (Inr b) \<longrightarrow>
      startswith b prefix
      \<and> (dirname b = rstrip sep prefix \<or> dirname b = join (rstrip sep prefix) ''ansible-generated'')
      \<and> (\<exists>n. b = (dirname ^^ n) volume
             \<and> (\<forall>m<n. keeps_crawling prefix (rstrip sep prefix)
                         (join (rstrip sep prefix) ''ansible-generated'') ((dirname ^^ m) volume))))
   \<and> (rstrip sep prefix \<noteq> [] \<longrightarrow>
        ((\<exists>b'. get_config_base prefix volume = Some (Inr b'))
           = (startswith volume prefix \<and> startswith volume (rstrip sep prefix @ [sep])))
        \<and> (\<not> (startswith volume prefix \<and> startswith volume (rstrip sep prefix @ [sep])) \<longrightarrow>
             get_config_base prefix volume = Some (Inl (ConfigBaseNotFound volume prefix)))
        \<and> get_config_base prefix (rstrip sep prefix)
             = Some (Inl (ConfigBaseNotFound (rstrip sep prefix) prefix)))
   \<and> get_config_base ''/var/lib/config-data'' ''/var/lib/config-data/nova/etc/nova/nova.conf''
       = Some (Inr ''/var/lib/config-data/nova'')
   \<and> get_config_base ''/var/lib/config-data''
         ''/var/lib/config-data/ansible-generated/nova/etc/nova.conf''
       = Some (Inr ''/var/lib/config-data/ansible-generated/nova'')"
proof -
  let ?base = "rstrip sep prefix"
  let ?bg = "join ?base ''ansible-generated''"
  have returned: "startswith b prefix \<and> (dirname b = ?base \<or> dirname b = ?bg)
      \<and> (\<exists>n. b = (dirname ^^ n) volume
             \<and> (\<forall>m<n. keeps_crawling prefix ?base ?bg ((dirname ^^ m) volume)))"
    if "get_config_base prefix volume = Some (Inr b)"
  proof -
    from that have "crawl_post volume prefix ?base ?bg volume (Inr b)"
      unfolding get_config_base_def by (rule crawl_result)
    then show ?thesis by (auto simp: crawl_post_def)
  qed
  have fails: "get_config_base prefix v = Some (Inl (ConfigBaseNotFound v prefix))"
    if ne: "?base \<noteq> []" and no: "\<not> (startswith v prefix \<and> startswith v (?base @ [sep]))" for v
  proof -
    from no have "\<not> (\<exists>b. get_config_base prefix v = Some (Inr b))"
      using get_config_base_returns_iff [OF ne, of v] by blast
    moreover from crawl_total [OF ne, of v ?base ?bg v]
    have "(\<exists>b. get_config_base prefix v = Some (Inr b))
        \<or> get_config_base prefix v = Some (Inl (ConfigBaseNotFound v prefix))"
      by (simp only: get_config_base_def)
    ultimately show ?thesis by blast
  qed
  have itself: "get_config_base prefix ?base = Some (Inl (ConfigBaseNotFound ?base prefix))"
    if ne: "?base \<noteq> []"
  proof (rule fails [OF ne])
    have "\<not> startswith ?base (?base @ [sep])"
      by (simp add: startswith_append)
    then show "\<not> (startswith ?base prefix \<and> startswith ?base (?base @ [sep]))" by simp
  qed
  have ex1: "get_config_base ''/var/lib/config-data'' ''/var/lib/config-data/nova/etc/nova/nova.conf''
       = Some (Inr ''/var/lib/config-data/nova'')"
    by (simp add: get_config_base_def crawl.simps dirname_def upto_last_sep_def rstrip_def sep_def
        join_def startswith_def endswith_def)
  have ex2: "get_config_base ''/var/lib/config-data''
         ''/var/lib/config-data/ansible-generated/nova/etc/nova.conf''
       = Some (Inr ''/var/lib/config-data/ansible-generated/nova'')"
    by (simp add: get_config_base_def crawl.simps dirname_def upto_last_sep_def rstrip_def sep_def
        join_def startswith_def endswith_def)
  from returned get_config_base_returns_iff [of prefix volume] fails [of volume] itself ex1 ex2
  show ?thesis by (intro conjI impI) blast+
qed

text \<open>
  The amended claim at a prefix with one trailing separator and a source in the
  \<^verbatim>\<open>ansible-generated\<close> subtree, at a prefix with two trailing separators, and at
  the two sources of the default prefix that fail: the prefix itself and a directory
  beside it.
\<close>

theorem get_config_base_correct_witness:
  "rstrip sep ''/var/lib/config-data/'' \<noteq> []
   \<and> startswith ''/var/lib/config-data/ansible-generated/ovn/etc'' ''/var/lib/config-data/''
   \<and> startswith ''/var/lib/config-data/ansible-generated/ovn/etc''
        (rstrip sep ''/var/lib/config-data/'' @ [sep])
   \<and> get_config_base ''/var/lib/config-data/'' ''/var/lib/config-data/ansible-generated/ovn/etc''
        = Some (Inr ''/var/lib/config-data/ansible-generated/ovn'')
   \<and> (dirname ''/var/lib/config-data/ansible-generated/ovn'' = rstrip sep ''/var/lib/config-data/''
        \<or> dirname ''/var/lib/config-data/ansible-generated/ovn''
            = join (rstrip sep ''/var/lib/config-data/'') ''ansible-generated'')
   \<and> (\<exists>b'. get_config_base ''/var/lib/config-data/''
            ''/var/lib/config-data/ansible-generated/ovn/etc'' = Some (Inr b'))
   \<and> rstrip sep ''/var/lib/config-data//'' = ''/var/lib/config-data''
   \<and> startswith ''/var/lib/config-data//nova/etc'' ''/var/lib/config-data//''
   \<and> (\<exists>b'. get_config_base ''/var/lib/config-data//'' ''/var/lib/config-data//nova/etc''
          = Some (Inr b'))
   \<and> rstrip sep ''/var/lib/config-data'' = ''/var/lib/config-data''
   \<and> get_config_base ''/var/lib/config-data'' ''/var/lib/config-data''
        = Some (Inl (ConfigBaseNotFound ''/var/lib/config-data'' ''/var/lib/config-data''))
   \<and> startswith ''/var/lib/config-data-old/nova'' ''/var/lib/config-data''
   \<and> get_config_base ''/var/lib/config-data'' ''/var/lib/config-data-old/nova''
        = Some (Inl (ConfigBaseNotFound ''/var/lib/config-data-old/nova'' ''/var/lib/config-data''))"
proof -
  let ?prefix = "''/var/lib/config-data/''"
  let ?volume = "''/var/lib/config-data/ansible-generated/ovn/etc''"
  let ?b = "''/var/lib/config-data/ansible-generated/ovn''"
  note inst = get_config_base_correct [of ?prefix ?volume ?b]
  have e: "get_config_base ?prefix ?volume = Some (Inr ?b)"
    by (simp add: get_config_base_def crawl.simps dirname_def upto_last_sep_def rstrip_def sep_def
        join_def startswith_def endswith_def)
  have h1: "rstrip sep ?prefix \<noteq> []"
    by (simp add: rstrip_def sep_def)
  have h2: "startswith ?volume ?prefix"
    by (simp add: startswith_def)
  have h3: "startswith ?volume (rstrip sep ?prefix @ [sep])"
    by (simp add: rstrip_def sep_def startswith_def)
  have parent: "dirname ?b = rstrip sep ?prefix
      \<or> dirname ?b = join (rstrip sep ?prefix) ''ansible-generated''"
    using inst e by blast
  have returns: "\<exists>b'. get_config_base ?prefix ?volume = Some (Inr b')"
    using inst h1 h2 h3 by blast
  let ?prefix2 = "''/var/lib/config-data//''"
  let ?volume2 = "''/var/lib/config-data//nova/etc''"
  have s2: "rstrip sep ?prefix2 = ''/var/lib/config-data''"
    by (simp add: rstrip_def sep_def)
  have k1: "rstrip sep ?prefix2 \<noteq> []" by (simp add: s2)
  have k2: "startswith ?volume2 ?prefix2" by (simp add: startswith_def)
  have k3: "startswith ?volume2 (rstrip sep ?prefix2 @ [sep])"
    unfolding s2 by (simp add: sep_def startswith_def)
  have returns2: "\<exists>b'. get_config_base ?prefix2 ?volume2 = Some (Inr b')"
    using get_config_base_correct [of ?prefix2 ?volume2] k1 k2 k3 by blast
  let ?prefix0 = "''/var/lib/config-data''"
  have s0: "rstrip sep ?prefix0 = ?prefix0" by (simp add: rstrip_def sep_def)
  have n0: "rstrip sep ?prefix0 \<noteq> []" by (simp add: s0)
  have "get_config_base ?prefix0 (rstrip sep ?prefix0)
      = Some (Inl (ConfigBaseNotFound (rstrip sep ?prefix0) ?prefix0))"
    using get_config_base_correct [of ?prefix0 ?prefix0] n0 by blast
  then have itself: "get_config_base ?prefix0 ?prefix0
      = Some (Inl (ConfigBaseNotFound ?prefix0 ?prefix0))"
    by (simp only: s0)
  let ?sibling = "''/var/lib/config-data-old/nova''"
  have sw: "startswith ?sibling ?prefix0" by (simp add: startswith_def)
  have "\<not> (startswith ?sibling ?prefix0 \<and> startswith ?sibling (rstrip sep ?prefix0 @ [sep]))"
    unfolding s0 by (simp add: sep_def startswith_def)
  then have sibling: "get_config_base ?prefix0 ?sibling
      = Some (Inl (ConfigBaseNotFound ?sibling ?prefix0))"
    using get_config_base_correct [of ?prefix0 ?sibling] n0 by blast
  from h1 h2 h3 e parent returns s2 k2 returns2 s0 itself sw sibling
  show ?thesis by (intro conjI)
qed


section \<open>Properties of the digest reads and of reconciliation\<close>

lemma get_config_hash_eq: "get_config_hash v st = (digest (files st) v, st)"
  by (simp add: get_config_hash_def path_exists_def slurp_def digest_def split: option.splits)

lemma get_config_hashes_eq: "get_config_hashes vs st = (map (digest (files st)) vs, st)"
  by (induction vs) (simp_all add: get_config_hash_eq)

lemma process_config_obsolete:
  "startswith (cname_of config) ''hashed-'' \<Longrightarrow>
   process_config lib prefix config st = Some (Inr (remove_file config st))"
  by (simp add: process_config_def)

lemma process_config_active:
  assumes "\<not> startswith (cname_of config) ''hashed-''"
    and "files st config = Some f"
    and "loads lib (content f) = Some cfg"
    and "match_config_volumes prefix cfg = Some (Inr vols)"
  shows "process_config lib prefix config st
       = Some (reconcile lib config cfg (filter_None (map (digest (files st)) vols)) st)"
  using assms by (simp add: process_config_def slurp_def get_config_hashes_eq)

lemma remove_file_files: "files (remove_file path st) = (files st)(path := None)"
  by (auto simp: remove_file_def path_exists_def split: option.splits)

lemma remove_file_absent: "files st path = None \<Longrightarrow> remove_file path st = st"
  by (simp add: remove_file_def path_exists_def)

lemma remove_file_other:
  "changed (remove_file path st) = changed st \<and> messages (remove_file path st) = messages st"
  by (simp add: remove_file_def)


lemma strip_all_newlines:
  assumes "set s \<subseteq> {c}"
  shows "strip c s = []"
proof -
  have "dropWhile (\<lambda>x. x = c) (rev s) = []"
    by (rule dropWhile_eq_Nil_conv [THEN iffD2]) (use assms in auto)
  then show ?thesis
    unfolding strip_def rstrip_def by (simp only: rev.simps dropWhile.simps)
qed

lemma rstrip_append_replicate: "rstrip c (s @ replicate n c) = rstrip c s"
  by (simp add: rstrip_def dropWhile_append)

lemma strip_padded:
  assumes "body = [] \<or> hd body \<noteq> c \<and> last body \<noteq> c"
  shows "strip c (replicate m c @ body @ replicate n c) = body"
proof (cases "body = []")
  case True
  then show ?thesis
    by (intro strip_all_newlines [THEN trans [OF _ sym]]) auto
next
  case False
  with assms have hd: "hd body \<noteq> c" and last: "last body \<noteq> c" by auto
  have "rstrip c (replicate m c @ body @ replicate n c) = rstrip c (replicate m c @ body)"
    using rstrip_append_replicate [of c "replicate m c @ body" n] by simp
  also have "\<dots> = replicate m c @ body"
    using False last by (cases body rule: rev_cases) (simp_all add: rstrip_def)
  finally have "strip c (replicate m c @ body @ replicate n c) = dropWhile (\<lambda>x. x = c) (replicate m c @ body)"
    by (simp add: strip_def)
  also have "\<dots> = dropWhile (\<lambda>x. x = c) body"
    by (simp add: dropWhile_append)
  also have "\<dots> = body"
    using False hd by (cases body) simp_all
  finally show ?thesis .
qed

lemma filter_None_map_cong:
  assumes "\<And>v. v \<in> set vs \<Longrightarrow> f v = g v \<or> (f v \<in> {None, Some []} \<and> g v \<in> {None, Some []})"
  shows "filter_None (map f vs) = filter_None (map g vs)"
  using assms
proof (induction vs)
  case Nil
  then show ?case by simp
next
  case (Cons v vs)
  then have ih: "filter_None (map f vs) = filter_None (map g vs)" by simp
  from Cons.prems [of v] have "f v = g v \<or> (f v \<in> {None, Some []} \<and> g v \<in> {None, Some []})" by simp
  then show ?case using ih by (cases "f v"; cases "g v") auto
qed


lemma old_config_hash_cases:
  assumes "old_config_hash cfg = Inr old"
  obtains kvs where "cfg = JObj kvs" "map_of kvs ''environment'' = None" "old = JStr []"
  | kvs env where "cfg = JObj kvs" "map_of kvs ''environment'' = Some (JObj env)"
      "old = (case map_of env ''EDPM_CONFIG_HASH'' of Some h \<Rightarrow> h | None \<Rightarrow> JStr [])"
  using assms
  by (auto simp: old_config_hash_def split: json.splits option.splits)

lemma set_config_hash_obj:
  assumes "old_config_hash (JObj kvs) = Inr old"
  shows "\<exists>kvs' env'. set_config_hash h (JObj kvs) = JObj kvs'
       \<and> map_of kvs' ''environment'' = Some (JObj env')
       \<and> map_of env' ''EDPM_CONFIG_HASH'' = Some (JStr h)
       \<and> (\<forall>k. k \<noteq> ''environment'' \<longrightarrow> map_of kvs' k = map_of kvs k)
       \<and> (\<forall>env k. map_of kvs ''environment'' = Some (JObj env) \<and> k \<noteq> ''EDPM_CONFIG_HASH''
            \<longrightarrow> map_of env' k = map_of env k)
       \<and> (map_of kvs ''environment'' = None \<longrightarrow> env' = [(''EDPM_CONFIG_HASH'', JStr h)])"
  using assms
  by (rule old_config_hash_cases) (simp_all add: set_config_hash_def update_conv')

lemma old_config_hash_set:
  assumes "old_config_hash cfg = Inr old"
  shows "old_config_hash (set_config_hash h cfg) = Inr (JStr h)"
  using assms
  by (rule old_config_hash_cases) (simp_all add: set_config_hash_def old_config_hash_def update_conv')

lemma match_config_volumes_set:
  assumes "old_config_hash cfg = Inr old"
  shows "match_config_volumes prefix (set_config_hash h cfg) = match_config_volumes prefix cfg"
  using assms
  by (rule old_config_hash_cases) (simp_all add: set_config_hash_def match_config_volumes_def update_conv')

lemma reconcile_unchanged:
  "old_config_hash cfg = Inr (JStr (dash_join hs)) \<Longrightarrow> reconcile lib config cfg hs st = Inr st"
  by (simp add: reconcile_def filter_object_truth_def)

lemma reconcile_changed:
  "old_config_hash cfg = Inr old \<Longrightarrow> old \<noteq> JStr (dash_join hs) \<Longrightarrow>
   reconcile lib config cfg hs st
     = Inr (update_container_config lib config (set_config_hash (dash_join hs) cfg)
              (module_debug (''Config change detected for '' @ cname_of config
                             @ '', new hash: '' @ dash_join hs) st))"
  by (auto simp add: reconcile_def filter_object_truth_def)

lemma update_container_config_files:
  "files (update_container_config lib path cfg st)
     = (files st)(path \<mapsto> \<lparr>content = dumps lib 2 cfg, mode = 384\<rparr>)"
  "changed (update_container_config lib path cfg st)"
  "messages (update_container_config lib path cfg st) = messages st"
  by (simp_all add: update_container_config_def)

lemma module_debug_files:
  "files (module_debug msg st) = files st"
  "changed (module_debug msg st) = changed st"
  by (simp_all add: module_debug_def)

lemma json_not_md5sum:
  assumes "endswith config ''.json''"
  shows "config \<noteq> v @ ''.md5sum''"
proof
  assume "config = v @ ''.md5sum''"
  with assms show False by (simp add: endswith_def startswith_def)
qed

lemma digest_update_json:
  "endswith config ''.json'' \<Longrightarrow> digest (fs(config := x)) v = digest fs v"
  using json_not_md5sum [of config v] by (simp add: digest_def)

lemma process_config_stable:
  assumes active: "\<not> startswith (cname_of config) ''hashed-''"
    and present: "files s config = Some g"
    and doc: "loads lib (content g) = Some c"
    and vols: "match_config_volumes prefix c = Some (Inr vs)"
    and same: "old_config_hash c = Inr (JStr (dash_join (filter_None (map (digest (files s)) vs))))"
  shows "process_config lib prefix config s = Some (Inr s)"
proof -
  have "process_config lib prefix config s
      = Some (reconcile lib config c (filter_None (map (digest (files s)) vs)) s)"
    using active present doc vols by (rule process_config_active)
  also have "\<dots> = Some (Inr s)"
    by (simp only: reconcile_unchanged [OF same])
  finally show ?thesis .
qed

section \<open>Facts about the example host\<close>

lemma nova_active: "\<not> startswith (cname_of nova_path) ''hashed-''"
  by (simp add: cname_of_def nova_path_def splitext_root_def basename_def sep_def startswith_def)

lemma nova_present:
  "files example_state nova_path = Some \<lparr>content = ''nova_compute, as deployed'', mode = 420\<rparr>"
  by (simp add: example_state_def example_files_def nova_path_def hashed_path_def ovn_path_def)

lemma nova_doc: "loads example_lib ''nova_compute, as deployed'' = Some nova_config"
  by (simp add: example_lib_def example_docs_def)

lemma nova_doc_hashed: "loads example_lib ''nova_compute, with hash abc123'' = Some nova_config_hashed"
  by (simp add: example_lib_def example_docs_def)

lemma nova_dump_hashed: "dumps example_lib 2 nova_config_hashed = ''nova_compute, with hash abc123''"
  by (simp add: example_lib_def example_docs_def nova_config_def nova_config_hashed_def)

lemma nova_base:
  "get_config_base default_prefix ''/var/lib/config-data/nova'' = Some (Inr ''/var/lib/config-data/nova'')"
  by (simp add: default_prefix_def get_config_base_def crawl.simps dirname_def upto_last_sep_def
      rstrip_def sep_def join_def startswith_def endswith_def)

lemma nova_volumes:
  "match_config_volumes default_prefix nova_config = Some (Inr [''/var/lib/config-data/nova''])"
  "match_config_volumes default_prefix nova_config_hashed = Some (Inr [''/var/lib/config-data/nova''])"
  using nova_base
  by (simp_all add: match_config_volumes_def nova_config_def nova_config_hashed_def split_colon_0_def)
    (simp_all add: default_prefix_def startswith_def)

lemma nova_digest: "digest example_files ''/var/lib/config-data/nova'' = Some ''abc123''"
  by (simp add: digest_def example_files_def nova_path_def hashed_path_def ovn_path_def strip_def rstrip_def newline_def)

lemma nova_hashes:
  "filter_None (fst (get_config_hashes [''/var/lib/config-data/nova''] example_state)) = [''abc123'']"
  by (simp add: get_config_hashes_eq example_state_def nova_digest)

lemma nova_old: "old_config_hash nova_config = Inr (JStr [])"
  by (simp add: old_config_hash_def nova_config_def)

lemma nova_old_hashed: "old_config_hash nova_config_hashed = Inr (JStr ''abc123'')"
  by (simp add: old_config_hash_def nova_config_hashed_def)

lemma nova_set_hash: "set_config_hash ''abc123'' nova_config = nova_config_hashed"
  "set_config_hash ''abc123'' nova_config_hashed = nova_config_hashed"
  by (simp_all add: set_config_hash_def nova_config_def nova_config_hashed_def)

lemma example_state_after_files:
  "files example_state_after
     = example_files(nova_path \<mapsto> \<lparr>content = ''nova_compute, with hash abc123'', mode = 384\<rparr>)"
  by (simp add: example_state_after_def update_container_config_files module_debug_files
      nova_dump_hashed example_state_def)

lemma nova_hashes_after:
  "filter_None (fst (get_config_hashes [''/var/lib/config-data/nova''] example_state_after)) = [''abc123'']"
  using nova_digest
  by (simp add: get_config_hashes_eq example_state_after_files digest_def nova_path_def)


lemma nova_first_run:
  "process_config example_lib default_prefix nova_path example_state = Some (Inr example_state_after)"
proof -
  have doc: "loads example_lib
      (content \<lparr>content = ''nova_compute, as deployed'', mode = 420\<rparr>) = Some nova_config"
    using nova_doc by simp
  have "process_config example_lib default_prefix nova_path example_state
      = Some (reconcile example_lib nova_path nova_config
          (filter_None (map (digest (files example_state)) [''/var/lib/config-data/nova''])) example_state)"
    using nova_active nova_present doc nova_volumes(1) by (rule process_config_active)
  also have "filter_None (map (digest (files example_state)) [''/var/lib/config-data/nova'']) = [''abc123'']"
    using nova_hashes by (simp add: get_config_hashes_eq)
  also have "reconcile example_lib nova_path nova_config [''abc123''] example_state
      = Inr (update_container_config example_lib nova_path (set_config_hash (dash_join [''abc123'']) nova_config)
              (module_debug (''Config change detected for '' @ cname_of nova_path
                             @ '', new hash: '' @ dash_join [''abc123'']) example_state))"
    by (rule reconcile_changed [OF nova_old]) simp
  also have "set_config_hash (dash_join [''abc123'']) nova_config = nova_config_hashed"
    using nova_set_hash(1) by simp
  also have "''Config change detected for '' @ cname_of nova_path @ '', new hash: '' @ dash_join [''abc123'']
      = ''Config change detected for nova_compute, new hash: abc123''"
    by (simp add: cname_of_def nova_path_def splitext_root_def basename_def sep_def)
  finally show ?thesis by (simp only: example_state_after_def)
qed

lemma nova_present_after:
  "files example_state_after nova_path
     = Some \<lparr>content = ''nova_compute, with hash abc123'', mode = 384\<rparr>"
  by (simp add: example_state_after_files)


section \<open>Obsolete descriptors\<close>

text \<open>
  Claim C8. A discovered file whose name without directory and extension starts with
  \<^verbatim>\<open>hashed-\<close> is removed, and that is all that happens to it: the result does not
  depend on the JSON library, on the prefix or on the content of the file, which is
  neither read nor parsed, so no volume is matched and no digest read. Nothing else
  changes, removing a file that is absent changes nothing, and removing twice is
  removing once.
\<close>

theorem obsolete_descriptor_removed:
  assumes "startswith (cname_of config) ''hashed-''"
  shows "process_config lib prefix config st = Some (Inr (remove_file config st))
       \<and> files (remove_file config st) = (files st)(config := None)
       \<and> changed (remove_file config st) = changed st
       \<and> messages (remove_file config st) = messages st
       \<and> (files st config = None \<longrightarrow> remove_file config st = st)
       \<and> remove_file config (remove_file config st) = remove_file config st"
proof -
  have "remove_file config (remove_file config st) = remove_file config st"
    by (rule remove_file_absent) (simp add: remove_file_files)
  with assms show ?thesis
    by (simp add: process_config_obsolete remove_file_files remove_file_absent remove_file_other)
qed

text \<open>
  The claim on the example host: the obsolete file is not a JSON document, and is
  removed all the same; the descriptor next to it is untouched.
\<close>

theorem obsolete_descriptor_removed_witness:
  "startswith (cname_of hashed_path) ''hashed-''
   \<and> loads example_lib ''not a JSON document'' = None
   \<and> files example_state hashed_path = Some \<lparr>content = ''not a JSON document'', mode = 420\<rparr>
   \<and> process_config example_lib default_prefix hashed_path example_state
       = Some (Inr (remove_file hashed_path example_state))
   \<and> files (remove_file hashed_path example_state) hashed_path = None
   \<and> files (remove_file hashed_path example_state) nova_path = files example_state nova_path"
proof -
  have h: "startswith (cname_of hashed_path) ''hashed-''"
    by (simp add: cname_of_def hashed_path_def splitext_root_def basename_def sep_def startswith_def)
  have l: "loads example_lib ''not a JSON document'' = None"
    by (simp add: example_lib_def example_docs_def)
  have f: "files example_state hashed_path = Some \<lparr>content = ''not a JSON document'', mode = 420\<rparr>"
    by (simp add: example_state_def example_files_def hashed_path_def nova_path_def ovn_path_def)
  have n: "hashed_path \<noteq> nova_path" by (simp add: hashed_path_def nova_path_def)
  from obsolete_descriptor_removed [OF h, of example_lib default_prefix example_state] h l f n
  show ?thesis by simp
qed

section \<open>Digest values\<close>

text \<open>
  Claim C10. A digest file that holds only newline characters (or nothing) gives the
  empty string, which \<^verbatim>\<open>filter(None, _)\<close> drops as it drops the \<^verbatim>\<open>None\<close> of a missing
  file: the retained values are those of the same state without that file. And the trim
  is two-sided: newlines before and after a digest value are both removed.
\<close>

theorem blank_digest_dropped:
  "(files st (base @ ''.md5sum'') = Some f \<and> set (content f) \<subseteq> {newline} \<longrightarrow>
      fst (get_config_hash base st) = Some []
      \<and> filter_None (fst (get_config_hashes bases st))
        = filter_None (fst (get_config_hashes bases
            (st\<lparr>files := (files st)((base @ ''.md5sum'') := None)\<rparr>))))
   \<and> (files st (base @ ''.md5sum'') = Some f
       \<and> content f = replicate m newline @ body @ replicate n newline
       \<and> (body = [] \<or> hd body \<noteq> newline \<and> last body \<noteq> newline) \<longrightarrow>
         fst (get_config_hash base st) = Some body)"
proof (intro conjI impI)
  assume a: "files st (base @ ''.md5sum'') = Some f \<and> set (content f) \<subseteq> {newline}"
  then show "fst (get_config_hash base st) = Some []"
    by (simp add: get_config_hash_eq digest_def strip_all_newlines)
  let ?fs' = "(files st)((base @ ''.md5sum'') := None)"
  have "filter_None (map (digest (files st)) bases) = filter_None (map (digest ?fs') bases)"
  proof (rule filter_None_map_cong)
    fix v
    show "digest (files st) v = digest ?fs' v
        \<or> (digest (files st) v \<in> {None, Some []} \<and> digest ?fs' v \<in> {None, Some []})"
      using a by (cases "v = base") (simp_all add: digest_def strip_all_newlines)
  qed
  then show "filter_None (fst (get_config_hashes bases st))
        = filter_None (fst (get_config_hashes bases (st\<lparr>files := ?fs'\<rparr>)))"
    by (simp add: get_config_hashes_eq)
next
  assume "files st (base @ ''.md5sum'') = Some f
       \<and> content f = replicate m newline @ body @ replicate n newline
       \<and> (body = [] \<or> hd body \<noteq> newline \<and> last body \<noteq> newline)"
  then show "fst (get_config_hash base st) = Some body"
    by (simp add: get_config_hash_eq digest_def strip_padded)
qed

text \<open>
  Claim C10 on the example host, with a digest file of two newlines added for the
  \<^verbatim>\<open>ovn\<close> volume.
\<close>

theorem blank_digest_dropped_witness:
  "files (example_state\<lparr>files := example_files(''/var/lib/config-data/ovn.md5sum'' \<mapsto>
              \<lparr>content = [newline, newline], mode = 420\<rparr>)\<rparr>) (''/var/lib/config-data/ovn'' @ ''.md5sum'')
     = Some \<lparr>content = [newline, newline], mode = 420\<rparr>
   \<and> set (content \<lparr>content = [newline, newline], mode = 420\<rparr>) \<subseteq> {newline}
   \<and> fst (get_config_hash ''/var/lib/config-data/ovn''
        (example_state\<lparr>files := example_files(''/var/lib/config-data/ovn.md5sum'' \<mapsto>
              \<lparr>content = [newline, newline], mode = 420\<rparr>)\<rparr>)) = Some []
   \<and> filter_None (fst (get_config_hashes [''/var/lib/config-data/nova'', ''/var/lib/config-data/ovn'']
        (example_state\<lparr>files := example_files(''/var/lib/config-data/ovn.md5sum'' \<mapsto>
              \<lparr>content = [newline, newline], mode = 420\<rparr>)\<rparr>)))
     = filter_None (fst (get_config_hashes [''/var/lib/config-data/nova'', ''/var/lib/config-data/ovn'']
        example_state))
   \<and> files example_state (''/var/lib/config-data/nova'' @ ''.md5sum'')
     = Some \<lparr>content = ''abc123'' @ [newline], mode = 420\<rparr>
   \<and> fst (get_config_hash ''/var/lib/config-data/nova'' example_state) = Some ''abc123''"
proof -
  let ?blank = "\<lparr>content = [newline, newline], mode = 420\<rparr>"
  let ?st = "example_state\<lparr>files := example_files(''/var/lib/config-data/ovn.md5sum'' \<mapsto> ?blank)\<rparr>"
  have present: "files ?st (''/var/lib/config-data/ovn'' @ ''.md5sum'') = Some ?blank" by simp
  have blank: "set (content ?blank) \<subseteq> {newline}" by simp
  have removed: "?st\<lparr>files := (files ?st)((''/var/lib/config-data/ovn'' @ ''.md5sum'') := None)\<rparr> = example_state"
    by (simp add: example_state_def example_files_def nova_path_def hashed_path_def ovn_path_def)
  note blank_case = blank_digest_dropped [of ?st "''/var/lib/config-data/ovn''" ?blank
      "[''/var/lib/config-data/nova'', ''/var/lib/config-data/ovn'']"]
  have dropped: "fst (get_config_hash ''/var/lib/config-data/ovn'' ?st) = Some []
      \<and> filter_None (fst (get_config_hashes [''/var/lib/config-data/nova'', ''/var/lib/config-data/ovn''] ?st))
        = filter_None (fst (get_config_hashes [''/var/lib/config-data/nova'', ''/var/lib/config-data/ovn'']
            example_state))"
    using blank_case present blank unfolding removed by blast
  let ?nova = "\<lparr>content = ''abc123'' @ [newline], mode = 420\<rparr>"
  have nova: "files example_state (''/var/lib/config-data/nova'' @ ''.md5sum'') = Some ?nova"
    by (simp add: example_state_def example_files_def nova_path_def hashed_path_def ovn_path_def)
  have padded: "content ?nova = replicate 0 newline @ ''abc123'' @ replicate 1 newline"
    "''abc123'' = [] \<or> hd ''abc123'' \<noteq> newline \<and> last ''abc123'' \<noteq> newline"
    by (simp_all add: newline_def)
  have trimmed: "fst (get_config_hash ''/var/lib/config-data/nova'' example_state) = Some ''abc123''"
    using blank_digest_dropped [of example_state "''/var/lib/config-data/nova''" ?nova _ 0 "''abc123''" 1]
      nova padded by blast
  from present blank dropped nova trimmed show ?thesis by (intro conjI) simp_all
qed

section \<open>Rewriting a changed descriptor\<close>

lemma dash_join_closed:
  "hs \<noteq> [] \<Longrightarrow> dash_join hs = hd hs @ concat (map (\<lambda>h. ''-'' @ h) (tl hs))"
  by (induction hs rule: dash_join.induct) simp_all

text \<open>
  Claim C9. For an active descriptor that is a mapping, with a non-empty list of
  retained digests whose aggregate differs from the stored hash, the descriptor file is
  overwritten at its own path with \<^verbatim>\<open>json.dumps(_, indent=2)\<close> of the updated
  descriptor, its mode becomes \<^verbatim>\<open>0o600\<close> (384), and \<^verbatim>\<open>changed\<close> is set. The aggregate
  is written out: the first retained digest, then each further one after a \<^verbatim>\<open>-\<close>, in
  the order of the sorted bases. The updated descriptor has an \<^verbatim>\<open>environment\<close> mapping
  whose \<^verbatim>\<open>EDPM_CONFIG_HASH\<close> is the aggregate; every other key of the descriptor and of
  an existing \<^verbatim>\<open>environment\<close> is kept, and an absent \<^verbatim>\<open>environment\<close> is created with
  that one entry.
\<close>

theorem changed_descriptor_rewritten:
  assumes active: "\<not> startswith (cname_of config) ''hashed-''"
    and present: "files st config = Some f"
    and doc: "loads lib (content f) = Some (JObj kvs)"
    and vols: "match_config_volumes prefix (JObj kvs) = Some (Inr config_volumes)"
    and hs: "filter_None (fst (get_config_hashes config_volumes st)) = hs"
    and nonempty: "hs \<noteq> []"
    and old: "old_config_hash (JObj kvs) = Inr old"
    and differs: "old \<noteq> JStr (hd hs @ concat (map (\<lambda>h. ''-'' @ h) (tl hs)))"
  shows "\<exists>st' kvs' env'.
           process_config lib prefix config st = Some (Inr st')
         \<and> files st' = (files st)(config \<mapsto> \<lparr>content = dumps lib 2 (JObj kvs'), mode = 384\<rparr>)
         \<and> changed st'
         \<and> set_config_hash (hd hs @ concat (map (\<lambda>h. ''-'' @ h) (tl hs))) (JObj kvs) = JObj kvs'
         \<and> map_of kvs' ''environment'' = Some (JObj env')
         \<and> map_of env' ''EDPM_CONFIG_HASH''
             = Some (JStr (hd hs @ concat (map (\<lambda>h. ''-'' @ h) (tl hs))))
         \<and> (\<forall>k. k \<noteq> ''environment'' \<longrightarrow> map_of kvs' k = map_of kvs k)
         \<and> (\<forall>env k. map_of kvs ''environment'' = Some (JObj env) \<and> k \<noteq> ''EDPM_CONFIG_HASH''
              \<longrightarrow> map_of env' k = map_of env k)
         \<and> (map_of kvs ''environment'' = None
              \<longrightarrow> env' = [(''EDPM_CONFIG_HASH'',
                             JStr (hd hs @ concat (map (\<lambda>h. ''-'' @ h) (tl hs))))])"
proof -
  let ?agg = "hd hs @ concat (map (\<lambda>h. ''-'' @ h) (tl hs))"
  have agg: "dash_join hs = ?agg" using nonempty by (rule dash_join_closed)
  from hs have hs': "filter_None (map (digest (files st)) config_volumes) = hs"
    by (simp add: get_config_hashes_eq)
  from differs have differs': "old \<noteq> JStr (dash_join hs)" unfolding agg .
  let ?st' = "update_container_config lib config (set_config_hash (dash_join hs) (JObj kvs))
              (module_debug (''Config change detected for '' @ cname_of config
                             @ '', new hash: '' @ dash_join hs) st)"
  have "process_config lib prefix config st
      = Some (reconcile lib config (JObj kvs) (filter_None (map (digest (files st)) config_volumes)) st)"
    using active present doc vols by (rule process_config_active)
  also have "\<dots> = Some (Inr ?st')"
    unfolding hs' by (simp only: reconcile_changed [OF old differs'])
  finally have run: "process_config lib prefix config st = Some (Inr ?st')" .
  from set_config_hash_obj [OF old, of "dash_join hs"] obtain kvs' env' where
    s: "set_config_hash (dash_join hs) (JObj kvs) = JObj kvs'"
    and r1: "map_of kvs' ''environment'' = Some (JObj env')"
    and r2: "map_of env' ''EDPM_CONFIG_HASH'' = Some (JStr (dash_join hs))"
    and r3: "\<forall>k. k \<noteq> ''environment'' \<longrightarrow> map_of kvs' k = map_of kvs k"
    and r4: "\<forall>env k. map_of kvs ''environment'' = Some (JObj env) \<and> k \<noteq> ''EDPM_CONFIG_HASH''
            \<longrightarrow> map_of env' k = map_of env k"
    and r5: "map_of kvs ''environment'' = None \<longrightarrow> env' = [(''EDPM_CONFIG_HASH'', JStr (dash_join hs))]"
    by (elim exE conjE)
  have f: "files ?st' = (files st)(config \<mapsto> \<lparr>content = dumps lib 2 (JObj kvs'), mode = 384\<rparr>)"
    by (simp add: update_container_config_files module_debug_files s)
  have c: "changed ?st'" by (simp add: update_container_config_files)
  show ?thesis
    by (rule exI [of _ ?st'], rule exI [of _ kvs'], rule exI [of _ env'])
      (intro conjI run f c s [unfolded agg] r1 r2 [unfolded agg] r3 r4 r5 [unfolded agg])
qed



lemma libvirt_facts:
  "\<not> startswith (cname_of libvirt_path) ''hashed-''"
  "files libvirt_state libvirt_path = Some \<lparr>content = ''nova_libvirt, as deployed'', mode = 420\<rparr>"
  "loads libvirt_lib ''nova_libvirt, as deployed'' = Some libvirt_config"
  "dumps libvirt_lib 2 libvirt_config_hashed = ''nova_libvirt, with hash 9d2c-abc123''"
  by (simp_all add: cname_of_def libvirt_path_def splitext_root_def basename_def sep_def
      startswith_def libvirt_state_def libvirt_lib_def)

lemma libvirt_base:
  "get_config_base default_prefix ''/var/lib/config-data/libvirt/etc/libvirt''
     = Some (Inr ''/var/lib/config-data/libvirt'')"
  "get_config_base default_prefix ''/var/lib/config-data/nova/etc/nova''
     = Some (Inr ''/var/lib/config-data/nova'')"
  by (simp_all add: default_prefix_def get_config_base_def crawl.simps dirname_def upto_last_sep_def
      rstrip_def sep_def join_def startswith_def endswith_def)

lemma libvirt_volumes:
  "match_config_volumes default_prefix libvirt_config
     = Some (Inr [''/var/lib/config-data/libvirt'', ''/var/lib/config-data/nova''])"
  using libvirt_base
  by (simp add: match_config_volumes_def libvirt_config_def split_colon_0_def)
    (simp add: default_prefix_def startswith_def)

lemma libvirt_hashes:
  "filter_None (fst (get_config_hashes [''/var/lib/config-data/libvirt'', ''/var/lib/config-data/nova'']
      libvirt_state)) = [''9d2c'', ''abc123'']"
  using nova_digest
  by (simp add: get_config_hashes_eq libvirt_state_def digest_def libvirt_path_def
      strip_def rstrip_def newline_def)

lemma libvirt_old: "old_config_hash libvirt_config = Inr (JStr ''7be1'')"
  by (simp add: old_config_hash_def libvirt_config_def)

lemma libvirt_set_hash: "set_config_hash ''9d2c-abc123'' libvirt_config = libvirt_config_hashed"
  by (simp add: set_config_hash_def libvirt_config_def libvirt_config_hashed_def)


text \<open>
  Claim C9 twice. First the end-to-end scenario of the claim: the descriptor has the one
  volume \<^verbatim>\<open>/var/lib/config-data/nova:/etc/nova:ro\<close> and no \<^verbatim>\<open>environment\<close>, and the
  digest file \<^verbatim>\<open>/var/lib/config-data/nova.md5sum\<close> holds \<^verbatim>\<open>abc123\<close> and a newline.
  Then a descriptor with two config volumes, whose digests \<^verbatim>\<open>9d2c\<close> and \<^verbatim>\<open>abc123\<close>
  are joined, in the order of the bases, to \<^verbatim>\<open>9d2c-abc123\<close>.
\<close>

theorem changed_descriptor_rewritten_witness:
  "\<not> startswith (cname_of nova_path) ''hashed-''
   \<and> files example_state nova_path = Some \<lparr>content = ''nova_compute, as deployed'', mode = 420\<rparr>
   \<and> loads example_lib ''nova_compute, as deployed'' = Some nova_config
   \<and> match_config_volumes default_prefix nova_config = Some (Inr [''/var/lib/config-data/nova''])
   \<and> filter_None (fst (get_config_hashes [''/var/lib/config-data/nova''] example_state)) = [''abc123'']
   \<and> old_config_hash nova_config = Inr (JStr [])
   \<and> set_config_hash ''abc123'' nova_config = nova_config_hashed
   \<and> (\<exists>st'. process_config example_lib default_prefix nova_path example_state = Some (Inr st')
          \<and> files st' = example_files(nova_path \<mapsto>
                \<lparr>content = dumps example_lib 2 nova_config_hashed, mode = 384\<rparr>)
          \<and> changed st')
   \<and> \<not> startswith (cname_of libvirt_path) ''hashed-''
   \<and> files libvirt_state libvirt_path = Some \<lparr>content = ''nova_libvirt, as deployed'', mode = 420\<rparr>
   \<and> loads libvirt_lib ''nova_libvirt, as deployed'' = Some libvirt_config
   \<and> match_config_volumes default_prefix libvirt_config
       = Some (Inr [''/var/lib/config-data/libvirt'', ''/var/lib/config-data/nova''])
   \<and> filter_None (fst (get_config_hashes [''/var/lib/config-data/libvirt'', ''/var/lib/config-data/nova'']
        libvirt_state)) = [''9d2c'', ''abc123'']
   \<and> old_config_hash libvirt_config = Inr (JStr ''7be1'')
   \<and> set_config_hash ''9d2c-abc123'' libvirt_config = libvirt_config_hashed
   \<and> (\<exists>st'. process_config libvirt_lib default_prefix libvirt_path libvirt_state = Some (Inr st')
          \<and> files st' = (files libvirt_state)(libvirt_path \<mapsto>
                \<lparr>content = dumps libvirt_lib 2 libvirt_config_hashed, mode = 384\<rparr>)
          \<and> changed st')"
proof -
  let ?kvs = "[(''volumes'', JList [JStr ''/var/lib/config-data/nova:/etc/nova:ro''])]"
  have cfg: "nova_config = JObj ?kvs" by (simp add: nova_config_def)
  have differs: "JStr [] \<noteq> JStr (hd [''abc123''] @ concat (map (\<lambda>h. ''-'' @ h) (tl [''abc123''])))"
    by simp
  have nonempty: "[''abc123''] \<noteq> []" by simp
  have doc: "loads example_lib
      (content \<lparr>content = ''nova_compute, as deployed'', mode = 420\<rparr>) = Some (JObj ?kvs)"
    using nova_doc cfg by simp
  from changed_descriptor_rewritten [OF nova_active nova_present doc
      nova_volumes(1) [unfolded cfg] nova_hashes nonempty nova_old [unfolded cfg] differs]
  obtain st' kvs' where run: "process_config example_lib default_prefix nova_path example_state = Some (Inr st')"
    and f: "files st' = (files example_state)(nova_path \<mapsto> \<lparr>content = dumps example_lib 2 (JObj kvs'), mode = 384\<rparr>)"
    and c: "changed st'"
    and s: "set_config_hash (hd [''abc123''] @ concat (map (\<lambda>h. ''-'' @ h) (tl [''abc123'']))) (JObj ?kvs) = JObj kvs'"
    by blast
  from s have "JObj kvs' = nova_config_hashed"
    using nova_set_hash(1) by (simp add: cfg)
  with f have "files st' = example_files(nova_path \<mapsto>
                \<lparr>content = dumps example_lib 2 nova_config_hashed, mode = 384\<rparr>)"
    by (simp add: example_state_def)
  with run c have one: "\<exists>st'. process_config example_lib default_prefix nova_path example_state = Some (Inr st')
          \<and> files st' = example_files(nova_path \<mapsto>
                \<lparr>content = dumps example_lib 2 nova_config_hashed, mode = 384\<rparr>)
          \<and> changed st'" by blast
  obtain lkvs where lcfg: "libvirt_config = JObj lkvs" by (simp add: libvirt_config_def)
  have ldiffers: "JStr ''7be1'' \<noteq> JStr (hd [''9d2c'', ''abc123'']
      @ concat (map (\<lambda>h. ''-'' @ h) (tl [''9d2c'', ''abc123''])))"
    by simp
  have lnonempty: "[''9d2c'', ''abc123''] \<noteq> []" by simp
  have ldoc: "loads libvirt_lib
      (content \<lparr>content = ''nova_libvirt, as deployed'', mode = 420\<rparr>) = Some (JObj lkvs)"
    using libvirt_facts(3) lcfg by simp
  from changed_descriptor_rewritten [OF libvirt_facts(1) libvirt_facts(2) ldoc
      libvirt_volumes [unfolded lcfg] libvirt_hashes lnonempty libvirt_old [unfolded lcfg] ldiffers]
  obtain lst' lkvs' where lrun: "process_config libvirt_lib default_prefix libvirt_path libvirt_state = Some (Inr lst')"
    and lf: "files lst' = (files libvirt_state)(libvirt_path \<mapsto> \<lparr>content = dumps libvirt_lib 2 (JObj lkvs'), mode = 384\<rparr>)"
    and lc: "changed lst'"
    and ls: "set_config_hash (hd [''9d2c'', ''abc123'']
      @ concat (map (\<lambda>h. ''-'' @ h) (tl [''9d2c'', ''abc123'']))) (JObj lkvs) = JObj lkvs'"
    by blast
  from ls have "JObj lkvs' = libvirt_config_hashed"
    using libvirt_set_hash by (simp add: lcfg [symmetric])
  with lf lrun lc have two: "\<exists>st'. process_config libvirt_lib default_prefix libvirt_path libvirt_state = Some (Inr st')
          \<and> files st' = (files libvirt_state)(libvirt_path \<mapsto>
                \<lparr>content = dumps libvirt_lib 2 libvirt_config_hashed, mode = 384\<rparr>)
          \<and> changed st'" by auto
  from nova_active nova_present nova_doc nova_volumes(1) nova_hashes nova_old nova_set_hash(1) one
    libvirt_facts(1) libvirt_facts(2) libvirt_facts(3) libvirt_volumes libvirt_hashes libvirt_old
    libvirt_set_hash two
  show ?thesis by (intro conjI)
qed

section \<open>More facts about the example host\<close>

lemma ovn_active: "\<not> startswith (cname_of ovn_path) ''hashed-''"
  by (simp add: cname_of_def ovn_path_def splitext_root_def basename_def sep_def startswith_def)

lemma ovn_doc: "loads example_lib ''ovn_controller, with hash 0f3a'' = Some ovn_config"
  by (simp add: example_lib_def example_docs_def)

lemma ovn_dump_emptied: "dumps example_lib 2 ovn_config_emptied = ''ovn_controller, with empty hash''"
  by (simp add: example_lib_def example_docs_def ovn_config_emptied_def ovn_config_def
      nova_config_def nova_config_hashed_def)

lemma ovn_base:
  "get_config_base default_prefix ''/var/lib/config-data/ovn'' = Some (Inr ''/var/lib/config-data/ovn'')"
  by (simp add: default_prefix_def get_config_base_def crawl.simps dirname_def upto_last_sep_def
      rstrip_def sep_def join_def startswith_def endswith_def)

lemma ovn_volumes:
  "match_config_volumes default_prefix ovn_config = Some (Inr [''/var/lib/config-data/ovn''])"
  using ovn_base
  by (simp add: match_config_volumes_def ovn_config_def split_colon_0_def)
    (simp add: default_prefix_def startswith_def)

lemma ovn_old: "old_config_hash ovn_config = Inr (JStr ''0f3a'')"
  by (simp add: old_config_hash_def ovn_config_def)

lemma ovn_set_hash: "set_config_hash [] ovn_config = ovn_config_emptied"
  by (simp add: set_config_hash_def ovn_config_def ovn_config_emptied_def)

lemma ovn_rewrite:
  assumes present: "files s ovn_path = Some \<lparr>content = ''ovn_controller, with hash 0f3a'', mode = 420\<rparr>"
    and no_digest: "files s ''/var/lib/config-data/ovn.md5sum'' = None"
  shows "process_config example_lib default_prefix ovn_path s
       = Some (Inr (update_container_config example_lib ovn_path ovn_config_emptied
                     (module_debug ''Config change detected for ovn_controller, new hash: '' s)))"
proof -
  have doc: "loads example_lib
      (content \<lparr>content = ''ovn_controller, with hash 0f3a'', mode = 420\<rparr>) = Some ovn_config"
    using ovn_doc by simp
  have "process_config example_lib default_prefix ovn_path s
      = Some (reconcile example_lib ovn_path ovn_config
          (filter_None (map (digest (files s)) [''/var/lib/config-data/ovn''])) s)"
    using ovn_active present doc ovn_volumes by (rule process_config_active)
  also have "filter_None (map (digest (files s)) [''/var/lib/config-data/ovn'']) = []"
    using no_digest by (simp add: digest_def)
  also have "reconcile example_lib ovn_path ovn_config [] s
      = Inr (update_container_config example_lib ovn_path (set_config_hash (dash_join []) ovn_config)
              (module_debug (''Config change detected for '' @ cname_of ovn_path
                             @ '', new hash: '' @ dash_join []) s))"
    by (rule reconcile_changed [OF ovn_old]) simp
  also have "set_config_hash (dash_join []) ovn_config = ovn_config_emptied"
    using ovn_set_hash by simp
  also have "''Config change detected for '' @ cname_of ovn_path @ '', new hash: '' @ dash_join []
      = ''Config change detected for ovn_controller, new hash: ''"
    by (simp add: cname_of_def ovn_path_def splitext_root_def basename_def sep_def)
  finally show ?thesis .
qed

lemma example_files_ovn:
  "example_files ovn_path = Some \<lparr>content = ''ovn_controller, with hash 0f3a'', mode = 420\<rparr>"
  "example_files ''/var/lib/config-data/ovn.md5sum'' = None"
  by (simp_all add: example_files_def nova_path_def hashed_path_def ovn_path_def)


lemma example_configs:
  "find_configs example_tree CONTAINER_STARTUP_CONFIG st = ([nova_path, hashed_path, ovn_path], st)"
  by (simp add: find_configs_def example_tree_def fnmatch_filter_json_def endswith_def startswith_def
      join_def CONTAINER_STARTUP_CONFIG_def sep_def nova_path_def hashed_path_def ovn_path_def)

lemma hashed_obsolete: "startswith (cname_of hashed_path) ''hashed-''"
  by (simp add: cname_of_def hashed_path_def splitext_root_def basename_def sep_def startswith_def)

lemma example_paths_distinct:
  "nova_path \<noteq> hashed_path" "nova_path \<noteq> ovn_path" "hashed_path \<noteq> ovn_path"
  "ovn_path \<noteq> ''/var/lib/config-data/ovn.md5sum''"
  "hashed_path \<noteq> ''/var/lib/config-data/ovn.md5sum''"
  "nova_path \<noteq> ''/var/lib/config-data/ovn.md5sum''"
  by (simp_all add: nova_path_def hashed_path_def ovn_path_def)

lemma example_run:
  "process_configs example_lib default_prefix [nova_path, hashed_path, ovn_path] example_state
     = Some (Inr example_state_final)"
proof -
  let ?s2 = "remove_file hashed_path example_state_after"
  have fs2: "files ?s2 = (files example_state_after)(hashed_path := None)"
    by (rule remove_file_files)
  have present: "files ?s2 ovn_path
      = Some \<lparr>content = ''ovn_controller, with hash 0f3a'', mode = 420\<rparr>"
    and no_digest: "files ?s2 ''/var/lib/config-data/ovn.md5sum'' = None"
    using example_paths_distinct
    by (simp_all add: fs2 example_state_after_files example_files_ovn)
  have "process_config example_lib default_prefix ovn_path ?s2 = Some (Inr example_state_final)"
    unfolding example_state_final_def using present no_digest by (rule ovn_rewrite)
  moreover have "process_config example_lib default_prefix hashed_path example_state_after
      = Some (Inr ?s2)"
    using hashed_obsolete by (rule process_config_obsolete)
  ultimately show ?thesis
    using nova_first_run by simp
qed

lemma example_state_final_files:
  "files example_state_final nova_path
     = Some \<lparr>content = ''nova_compute, with hash abc123'', mode = 384\<rparr>"
  "files example_state_final hashed_path = None"
  "files example_state_final ovn_path
     = Some \<lparr>content = ''ovn_controller, with empty hash'', mode = 384\<rparr>"
  "changed example_state_final"
  using example_paths_distinct
  by (simp_all add: example_state_final_def update_container_config_files module_debug_files
      remove_file_files example_state_after_files ovn_dump_emptied)


lemma example_state_with_nova:
  "files (example_state_with text) nova_path = Some \<lparr>content = text, mode = 420\<rparr>"
  "slurp nova_path (example_state_with text) = (text, example_state_with text)"
  by (simp_all add: example_state_with_def slurp_def)

lemma mapping_doc: "loads example_lib ''volumes as a mapping'' = Some mapping_config"
  by (simp add: example_lib_def example_docs_def)

lemma list_doc: "loads example_lib ''a list of volumes'' = Some list_config"
  by (simp add: example_lib_def example_docs_def)

lemma mapping_volumes: "match_config_volumes default_prefix mapping_config = Some (Inr [])"
  by (simp add: match_config_volumes_def mapping_config_def default_prefix_def startswith_def)

lemma mapping_run:
  "process_config example_lib default_prefix nova_path (example_state_with ''volumes as a mapping'')
     = Some (Inr (example_state_with ''volumes as a mapping''))"
proof -
  have doc: "loads example_lib (content \<lparr>content = ''volumes as a mapping'', mode = 420\<rparr>)
      = Some mapping_config"
    using mapping_doc by simp
  have old: "old_config_hash mapping_config = Inr (JStr (dash_join (filter_None
      (map (digest (files (example_state_with ''volumes as a mapping''))) []))))"
    by (simp add: old_config_hash_def mapping_config_def)
  from nova_active example_state_with_nova(1) doc mapping_volumes old
  show ?thesis by (rule process_config_stable)
qed


section \<open>An empty aggregate\<close>

text \<open>
  Claim C3 fails on the code. The descriptor of \<^verbatim>\<open>ovn_controller\<close> on the example host
  stores the hash \<^verbatim>\<open>0f3a\<close>; its one config base has no digest file, so no digest
  value is retained. The guard \<^verbatim>\<open>if config_hashes is not None and config_hashes\<close> is
  true all the same, the aggregate is the empty string, it differs from the stored hash,
  and the descriptor is rewritten with an empty \<^verbatim>\<open>EDPM_CONFIG_HASH\<close> and \<^verbatim>\<open>changed\<close>
  set.
\<close>

theorem empty_aggregate_still_written:
  "files example_state ovn_path = Some \<lparr>content = ''ovn_controller, with hash 0f3a'', mode = 420\<rparr>
   \<and> loads example_lib ''ovn_controller, with hash 0f3a'' = Some ovn_config
   \<and> match_config_volumes default_prefix ovn_config = Some (Inr [''/var/lib/config-data/ovn''])
   \<and> filter_None (fst (get_config_hashes [''/var/lib/config-data/ovn''] example_state)) = []
   \<and> process_config example_lib default_prefix ovn_path example_state
       = Some (Inr (update_container_config example_lib ovn_path ovn_config_emptied
                     (module_debug ''Config change detected for ovn_controller, new hash: ''
                        example_state)))
   \<and> files (update_container_config example_lib ovn_path ovn_config_emptied
               (module_debug ''Config change detected for ovn_controller, new hash: ''
                  example_state)) ovn_path
       = Some \<lparr>content = ''ovn_controller, with empty hash'', mode = 384\<rparr>
   \<and> changed example_state = False
   \<and> changed (update_container_config example_lib ovn_path ovn_config_emptied
               (module_debug ''Config change detected for ovn_controller, new hash: ''
                  example_state)) = True"
proof -
  have present: "files example_state ovn_path
      = Some \<lparr>content = ''ovn_controller, with hash 0f3a'', mode = 420\<rparr>"
    and no_digest: "files example_state ''/var/lib/config-data/ovn.md5sum'' = None"
    by (simp_all add: example_state_def example_files_ovn)
  have none: "filter_None (fst (get_config_hashes [''/var/lib/config-data/ovn''] example_state)) = []"
    using no_digest by (simp add: get_config_hashes_eq digest_def)
  have written: "files (update_container_config example_lib ovn_path ovn_config_emptied
               (module_debug ''Config change detected for ovn_controller, new hash: ''
                  example_state)) ovn_path
       = Some \<lparr>content = ''ovn_controller, with empty hash'', mode = 384\<rparr>"
    by (simp add: update_container_config_files ovn_dump_emptied)
  have flag: "changed example_state = False" by (simp add: example_state_def)
  from present ovn_doc ovn_volumes none ovn_rewrite [OF present no_digest] written flag
  show ?thesis by (simp add: update_container_config_files)
qed

section \<open>Check mode\<close>

text \<open>
  Claim C4 fails on the code. The result of a run does not depend on \<^verbatim>\<open>check_mode\<close>,
  which is never read; and a run of the example host with \<^verbatim>\<open>check_mode\<close> set rewrites
  the descriptor of \<^verbatim>\<open>nova_compute\<close> with mode \<^verbatim>\<open>0o600\<close> and removes the obsolete file.
\<close>

theorem check_mode_still_writes:
  "main lib (args\<lparr>check_mode := True\<rparr>) tree fs = main lib (args\<lparr>check_mode := False\<rparr>) tree fs
   \<and> check_mode (example_params True) = True
   \<and> main example_lib (example_params True) example_tree example_files = Some (Inr example_state_final)
   \<and> example_files nova_path = Some \<lparr>content = ''nova_compute, as deployed'', mode = 420\<rparr>
   \<and> files example_state_final nova_path
       = Some \<lparr>content = ''nova_compute, with hash abc123'', mode = 384\<rparr>
   \<and> example_files hashed_path = Some \<lparr>content = ''not a JSON document'', mode = 420\<rparr>
   \<and> files example_state_final hashed_path = None
   \<and> changed example_state_final = True"
proof -
  have "main example_lib (example_params True) example_tree example_files
      = Some (Inr example_state_final)"
    using example_run
    by (simp add: main_def update_hashes_def example_configs example_params_def
        example_state_def [symmetric])
  moreover have "example_files nova_path = Some \<lparr>content = ''nova_compute, as deployed'', mode = 420\<rparr>"
    "example_files hashed_path = Some \<lparr>content = ''not a JSON document'', mode = 420\<rparr>"
    by (simp_all add: example_files_def nova_path_def hashed_path_def ovn_path_def)
  ultimately show ?thesis
    by (simp add: main_def example_params_def example_state_final_files)
qed

section \<open>Descriptors that are not mappings\<close>

lemma get_config_base_error:
  assumes "get_config_base prefix v = Some (Inl e)"
  shows "e = ConfigBaseNotFound v prefix"
proof -
  from assms have "crawl_post v prefix (rstrip sep prefix)
      (join (rstrip sep prefix) ''ansible-generated'') v (Inl e)"
    unfolding get_config_base_def by (rule crawl_result)
  then show ?thesis by (simp add: crawl_post_def)
qed

lemma config_bases_error:
  "config_bases prefix vs = Some (Inl e) \<Longrightarrow>
   e = AttributeError \<or> (\<exists>v. e = ConfigBaseNotFound v prefix)"
proof (induction vs)
  case Nil
  then show ?case by simp
next
  case (Cons a vs)
  show ?case
  proof (cases "\<exists>s. a = JStr s")
    case False
    then have "config_bases prefix (a # vs) = Some (Inl AttributeError)"
      by (cases a) simp_all
    with Cons.prems show ?thesis by simp
  next
    case True
    then obtain v where a: "a = JStr v" by blast
    show ?thesis
    proof (cases "startswith v prefix")
      case False
      with Cons a show ?thesis by simp
    next
      case sw: True
      show ?thesis
      proof (cases "get_config_base prefix (split_colon_0 v)")
        case None
        with sw a Cons.prems show ?thesis by simp
      next
        case (Some r)
        show ?thesis
        proof (cases r)
          case (Inl e')
          with Some sw a Cons.prems have "e = e'" by simp
          with Inl Some get_config_base_error show ?thesis by blast
        next
          case (Inr b)
          with Some sw a Cons.prems have "config_bases prefix vs = Some (Inl e)"
            by (auto split: option.splits sum.splits)
          then show ?thesis by (rule Cons.IH)
        qed
      qed
    qed
  qed
qed

lemma match_config_volumes_obj_error:
  assumes "match_config_volumes prefix (JObj kvs) = Some (Inl e)"
  shows "e = TypeError \<or> e = AttributeError \<or> (\<exists>v. e = ConfigBaseNotFound v prefix)"
proof (cases "iterate (case map_of kvs ''volumes'' of Some v \<Rightarrow> v | None \<Rightarrow> JList [])")
  case (Inl e')
  then have "e' = TypeError" by (cases "case map_of kvs ''volumes'' of Some v \<Rightarrow> v | None \<Rightarrow> JList []") simp_all
  with Inl assms show ?thesis by (simp add: match_config_volumes_def)
next
  case (Inr vs)
  with assms have "config_bases prefix vs = Some (Inl e)"
    by (auto simp: match_config_volumes_def split: option.splits sum.splits)
  then show ?thesis using config_bases_error by blast
qed

lemma reconcile_error:
  "reconcile lib config cfg hs st = Inl e \<Longrightarrow> e = TypeError \<or> e = AttributeError"
  by (auto simp: reconcile_def old_config_hash_def split: sum.splits json.splits option.splits if_splits)

lemma process_config_doc:
  assumes "\<not> startswith (cname_of config) ''hashed-''"
    and "loads lib (fst (slurp config st)) = Some cfg"
  shows "process_config lib prefix config st
       = (case match_config_volumes prefix cfg of
            None \<Rightarrow> None
          | Some (Inl e) \<Rightarrow> Some (Inl e)
          | Some (Inr vols) \<Rightarrow>
              Some (reconcile lib config cfg
                      (filter_None (map (digest (files (snd (slurp config st)))) vols))
                      (snd (slurp config st))))"
  using assms
  by (cases "slurp config st")
    (simp add: process_config_def get_config_hashes_eq split: option.splits sum.splits)


text \<open>
  Claim C6 does not hold as stated. A descriptor whose \<^verbatim>\<open>volumes\<close> is a mapping is
  processed without any error: the keys of the mapping are taken as the volumes. (A
  \<^verbatim>\<open>volumes\<close> that is a number ends the run, but with an uncaught \<^verbatim>\<open>TypeError\<close>, not
  with the error that names the prefix and the descriptor.)
\<close>

theorem volumes_not_a_sequence_counterexample:
  "loads example_lib ''volumes as a mapping''
     = Some (JObj [(''volumes'', JObj [(''/etc/hosts'', JStr ''/etc/hosts:ro'')])])
   \<and> files (example_state_with ''volumes as a mapping'') nova_path
     = Some \<lparr>content = ''volumes as a mapping'', mode = 420\<rparr>
   \<and> process_config example_lib default_prefix nova_path (example_state_with ''volumes as a mapping'')
     = Some (Inr (example_state_with ''volumes as a mapping''))
   \<and> match_config_volumes default_prefix (JObj [(''volumes'', JInt 5)]) = Some (Inl TypeError)"
  using mapping_doc mapping_run
  by (simp add: example_state_with_nova mapping_config_def match_config_volumes_def)


text \<open>
  Claim C6, amended. For an active descriptor that parses, processing ends with the
  error that names the prefix and the descriptor exactly when the descriptor is not a
  mapping (so that \<^verbatim>\<open>config.get\<close> does not exist); the run then ends with that error.
  For a descriptor that is a mapping this error is never raised, whatever its
  \<^verbatim>\<open>volumes\<close> field is.
\<close>

theorem not_a_mapping_aborts:
  assumes active: "\<not> startswith (cname_of config) ''hashed-''"
    and doc: "loads lib (fst (slurp config st)) = Some cfg"
  shows "(process_config lib prefix config st = Some (Inl (ErrorFetchingVolumes prefix cfg)))
           = (\<forall>kvs. cfg \<noteq> JObj kvs)
       \<and> ((\<forall>kvs. cfg \<noteq> JObj kvs) \<longrightarrow>
            process_configs lib prefix (config # rest) st
              = Some (Inl (ErrorFetchingVolumes prefix cfg)))"
proof -
  note run = process_config_doc [OF active doc, of prefix]
  have abort: "process_config lib prefix config st = Some (Inl (ErrorFetchingVolumes prefix cfg))"
    if "\<forall>kvs. cfg \<noteq> JObj kvs"
  proof -
    from that have "match_config_volumes prefix cfg = Some (Inl (ErrorFetchingVolumes prefix cfg))"
      by (cases cfg) (simp_all add: match_config_volumes_def)
    with run show ?thesis by simp
  qed
  have no_abort: "process_config lib prefix config st \<noteq> Some (Inl (ErrorFetchingVolumes prefix cfg))"
    if obj: "cfg = JObj kvs" for kvs
  proof
    assume a: "process_config lib prefix config st = Some (Inl (ErrorFetchingVolumes prefix cfg))"
    show False
    proof (cases "match_config_volumes prefix cfg")
      case None
      with run a show False by simp
    next
      case (Some r)
      show False
      proof (cases r)
        case (Inl e)
        with Some run a have "e = ErrorFetchingVolumes prefix cfg" by simp
        moreover from Some Inl obj
        have "e = TypeError \<or> e = AttributeError \<or> (\<exists>v. e = ConfigBaseNotFound v prefix)"
          using match_config_volumes_obj_error by blast
        ultimately show False by auto
      next
        case (Inr vols)
        with Some run a obtain hs s where
          "reconcile lib config cfg hs s = Inl (ErrorFetchingVolumes prefix cfg)" by simp
        then show False using reconcile_error by blast
      qed
    qed
  qed
  from abort no_abort
  have "(process_config lib prefix config st = Some (Inl (ErrorFetchingVolumes prefix cfg)))
           = (\<forall>kvs. cfg \<noteq> JObj kvs)" by blast
  moreover have "process_configs lib prefix (config # rest) st
              = Some (Inl (ErrorFetchingVolumes prefix cfg))" if "\<forall>kvs. cfg \<noteq> JObj kvs"
    using abort [OF that] by simp
  ultimately show ?thesis by blast
qed

text \<open>
  The amended claim on the example host: a descriptor that is a list at top level ends
  the run with the error; the descriptor whose \<^verbatim>\<open>volumes\<close> is a mapping does not.
\<close>

theorem not_a_mapping_aborts_witness:
  "\<not> startswith (cname_of nova_path) ''hashed-''
   \<and> loads example_lib (fst (slurp nova_path (example_state_with ''a list of volumes'')))
       = Some (JList [JStr ''/var/lib/config-data/nova:/etc/nova:ro''])
   \<and> process_config example_lib default_prefix nova_path (example_state_with ''a list of volumes'')
       = Some (Inl (ErrorFetchingVolumes default_prefix
                      (JList [JStr ''/var/lib/config-data/nova:/etc/nova:ro''])))
   \<and> process_configs example_lib default_prefix [nova_path, ovn_path]
         (example_state_with ''a list of volumes'')
       = Some (Inl (ErrorFetchingVolumes default_prefix
                      (JList [JStr ''/var/lib/config-data/nova:/etc/nova:ro''])))
   \<and> loads example_lib (fst (slurp nova_path (example_state_with ''volumes as a mapping'')))
       = Some mapping_config
   \<and> process_config example_lib default_prefix nova_path (example_state_with ''volumes as a mapping'')
       \<noteq> Some (Inl (ErrorFetchingVolumes default_prefix mapping_config))"
proof -
  let ?cfg = "JList [JStr ''/var/lib/config-data/nova:/etc/nova:ro'']"
  have doc: "loads example_lib (fst (slurp nova_path (example_state_with ''a list of volumes''))) = Some ?cfg"
    using list_doc by (simp add: example_state_with_nova list_config_def)
  have not_obj: "\<forall>kvs. ?cfg \<noteq> JObj kvs" by simp
  note inst = not_a_mapping_aborts [OF nova_active doc, of default_prefix "[ovn_path]"]
  have aborts: "process_config example_lib default_prefix nova_path (example_state_with ''a list of volumes'')
       = Some (Inl (ErrorFetchingVolumes default_prefix ?cfg))"
    using inst not_obj by blast
  have run_aborts: "process_configs example_lib default_prefix [nova_path, ovn_path]
         (example_state_with ''a list of volumes'')
       = Some (Inl (ErrorFetchingVolumes default_prefix ?cfg))"
    using inst not_obj by blast
  have doc2: "loads example_lib (fst (slurp nova_path (example_state_with ''volumes as a mapping'')))
       = Some mapping_config"
    using mapping_doc by (simp add: example_state_with_nova)
  have obj: "\<not> (\<forall>kvs. mapping_config \<noteq> JObj kvs)" by (simp add: mapping_config_def)
  have no_abort: "process_config example_lib default_prefix nova_path
         (example_state_with ''volumes as a mapping'')
       \<noteq> Some (Inl (ErrorFetchingVolumes default_prefix mapping_config))"
    using not_a_mapping_aborts [OF nova_active doc2, of default_prefix "[]"] obj by blast
  from nova_active doc aborts run_aborts doc2 no_abort show ?thesis by (intro conjI)
qed


section \<open>Order and repetition of the matched volumes\<close>

lemma config_bases_ok:
  "config_bases prefix vs = Some (Inr bs) \<longleftrightarrow>
     (\<forall>v \<in> set vs. (\<exists>s. v = JStr s) \<and> (qualifies prefix v \<longrightarrow> resolved prefix v \<noteq> None))
     \<and> bs = List.map_filter (resolved prefix) vs"
proof (induction vs arbitrary: bs)
  case Nil
  then show ?case by (auto simp: List.map_filter_simps)
next
  case (Cons a vs)
  show ?case
  proof (cases "\<exists>s. a = JStr s")
    case False
    then have "config_bases prefix (a # vs) = Some (Inl AttributeError)"
      by (cases a) simp_all
    with False show ?thesis by simp
  next
    case True
    then obtain v where a: "a = JStr v" by blast
    show ?thesis
    proof (cases "startswith v prefix")
      case False
      then have "resolved prefix a = None" "\<not> qualifies prefix a"
        by (simp_all add: a resolved_def qualifies_def)
      with False a Cons.IH [of bs] show ?thesis by (simp add: List.map_filter_simps)
    next
      case sw: True
      then have q: "qualifies prefix a" by (simp add: a qualifies_def)
      show ?thesis
      proof (cases "get_config_base prefix (split_colon_0 v)")
        case None
        with sw a q show ?thesis by (simp add: resolved_def)
      next
        case (Some r)
        show ?thesis
        proof (cases r)
          case (Inl e)
          with Some sw a q show ?thesis by (simp add: resolved_def)
        next
          case (Inr b)
          with Some sw a have r: "resolved prefix a = Some b" by (simp add: resolved_def)
          show ?thesis
          proof (cases bs)
            case Nil
            with Inr Some sw a r show ?thesis
              by (auto simp: List.map_filter_simps split: option.splits sum.splits)
          next
            case (Cons b' bs')
            with Inr Some sw a r q Cons.IH [of bs'] show ?thesis
              by (auto simp: List.map_filter_simps split: option.splits sum.splits)
          qed
        qed
      qed
    qed
  qed
qed

lemma mset_map_filter_perm:
  "mset vs' = mset vs \<Longrightarrow> mset (List.map_filter f vs') = mset (List.map_filter f vs)"
  by (simp add: List.map_filter_def)

lemma length_map_filter_resolved:
  assumes "\<forall>v \<in> set vs. qualifies prefix v \<longrightarrow> resolved prefix v \<noteq> None"
  shows "length (List.map_filter (resolved prefix) vs) = length (filter (qualifies prefix) vs)"
proof -
  have "filter (\<lambda>v. resolved prefix v \<noteq> None) vs = filter (qualifies prefix) vs"
  proof (rule filter_cong [OF refl])
    fix v assume "v \<in> set vs"
    with assms show "(resolved prefix v \<noteq> None) = qualifies prefix v"
      by (cases v) (auto simp: resolved_def qualifies_def)
  qed
  then show ?thesis by (simp add: List.map_filter_def)
qed


lemma sort_mset_eq:
  fixes xs ys :: "string list"
  assumes "mset xs = mset ys"
  shows "sort xs = sort ys"
  by (rule properties_for_sort) (simp_all add: assms)


text \<open>
  Claim C2 does not hold as stated: two volumes below the same base give that base
  twice.
\<close>

theorem match_config_volumes_duplicates:
  "match_config_volumes ''/var/lib/config-data''
     (JObj [(''volumes'', JList [JStr ''/var/lib/config-data/nova/etc/nova:/etc/nova:ro'',
                                 JStr ''/var/lib/config-data/nova/etc/libvirt:/etc/libvirt:ro''])])
     = Some (Inr [''/var/lib/config-data/nova'', ''/var/lib/config-data/nova''])
   \<and> distinct [''/var/lib/config-data/nova'', ''/var/lib/config-data/nova''] = False"
  by (simp add: match_config_volumes_def get_config_base_def crawl.simps dirname_def
      upto_last_sep_def rstrip_def sep_def join_def startswith_def endswith_def split_colon_0_def)

text \<open>
  Claim C2, amended. When \<^verbatim>\<open>_match_config_volumes\<close> returns a list for a descriptor
  whose \<^verbatim>\<open>volumes\<close> is a list, the result is sorted in ascending order and has one
  entry for every volume that starts with the prefix, equal bases included: it is not
  deduplicated. It is a rearrangement of the bases of those volumes, and it is the same
  for every descriptor whose volumes are a rearrangement of these: the result depends
  on the volumes as a multiset, not on their order.
\<close>

theorem match_config_volumes_sorted:
  assumes vols: "map_of kvs ''volumes'' = Some (JList vs)"
    and ok: "match_config_volumes prefix (JObj kvs) = Some (Inr bs)"
  shows "sorted bs
       \<and> length bs = length (filter (qualifies prefix) vs)
       \<and> mset bs = mset (List.map_filter (resolved prefix) vs)
       \<and> (\<forall>kvs' vs'. map_of kvs' ''volumes'' = Some (JList vs') \<and> mset vs' = mset vs \<longrightarrow>
            match_config_volumes prefix (JObj kvs') = Some (Inr bs))"
proof -
  from ok vols obtain cs where cs: "config_bases prefix vs = Some (Inr cs)" and bs: "bs = sort cs"
    by (auto simp: match_config_volumes_def split: option.splits sum.splits)
  from cs have good: "\<forall>v \<in> set vs. (\<exists>s. v = JStr s) \<and> (qualifies prefix v \<longrightarrow> resolved prefix v \<noteq> None)"
    and cs_eq: "cs = List.map_filter (resolved prefix) vs"
    by (simp_all add: config_bases_ok)
  have "sorted bs" by (simp add: bs)
  moreover have "length bs = length (filter (qualifies prefix) vs)"
    using good by (simp add: bs cs_eq length_map_filter_resolved)
  moreover have "mset bs = mset (List.map_filter (resolved prefix) vs)"
    by (simp add: bs cs_eq)
  moreover have "match_config_volumes prefix (JObj kvs') = Some (Inr bs)"
    if a: "map_of kvs' ''volumes'' = Some (JList vs') \<and> mset vs' = mset vs" for kvs' vs'
  proof -
    from a have "set vs' = set vs" by (metis set_mset_mset)
    with good have "config_bases prefix vs' = Some (Inr (List.map_filter (resolved prefix) vs'))"
      by (simp add: config_bases_ok)
    moreover have "sort (List.map_filter (resolved prefix) vs') = sort cs"
      unfolding cs_eq using a by (intro sort_mset_eq mset_map_filter_perm) simp
    ultimately show ?thesis using a by (simp add: match_config_volumes_def bs)
  qed
  ultimately show ?thesis by blast
qed


text \<open>
  The amended claim for three volumes, one of them outside the prefix, and a
  rearrangement of them in a descriptor that also has an \<^verbatim>\<open>environment\<close>.
\<close>

theorem match_config_volumes_sorted_witness:
  "map_of [(''volumes'', JList [JStr ''/var/lib/config-data/ovn:/etc/ovn:ro'',
                               JStr ''/etc/hosts:/etc/hosts:ro'',
                               JStr ''/var/lib/config-data/nova/etc/nova:/etc/nova:ro''])] ''volumes''
     = Some (JList [JStr ''/var/lib/config-data/ovn:/etc/ovn:ro'',
                    JStr ''/etc/hosts:/etc/hosts:ro'',
                    JStr ''/var/lib/config-data/nova/etc/nova:/etc/nova:ro''])
   \<and> match_config_volumes ''/var/lib/config-data''
        (JObj [(''volumes'', JList [JStr ''/var/lib/config-data/ovn:/etc/ovn:ro'',
                                    JStr ''/etc/hosts:/etc/hosts:ro'',
                                    JStr ''/var/lib/config-data/nova/etc/nova:/etc/nova:ro''])])
       = Some (Inr [''/var/lib/config-data/nova'', ''/var/lib/config-data/ovn''])
   \<and> sorted [''/var/lib/config-data/nova'', ''/var/lib/config-data/ovn'']
   \<and> length [''/var/lib/config-data/nova'', ''/var/lib/config-data/ovn'']
       = length (filter (qualifies ''/var/lib/config-data'')
           [JStr ''/var/lib/config-data/ovn:/etc/ovn:ro'',
            JStr ''/etc/hosts:/etc/hosts:ro'',
            JStr ''/var/lib/config-data/nova/etc/nova:/etc/nova:ro''])
   \<and> mset [JStr ''/var/lib/config-data/nova/etc/nova:/etc/nova:ro'',
            JStr ''/var/lib/config-data/ovn:/etc/ovn:ro'',
            JStr ''/etc/hosts:/etc/hosts:ro'']
       = mset [JStr ''/var/lib/config-data/ovn:/etc/ovn:ro'',
               JStr ''/etc/hosts:/etc/hosts:ro'',
               JStr ''/var/lib/config-data/nova/etc/nova:/etc/nova:ro'']
   \<and> match_config_volumes ''/var/lib/config-data''
        (JObj [(''environment'', JObj []),
               (''volumes'', JList [JStr ''/var/lib/config-data/nova/etc/nova:/etc/nova:ro'',
                                    JStr ''/var/lib/config-data/ovn:/etc/ovn:ro'',
                                    JStr ''/etc/hosts:/etc/hosts:ro''])])
       = Some (Inr [''/var/lib/config-data/nova'', ''/var/lib/config-data/ovn''])"
proof -
  let ?vs = "[JStr ''/var/lib/config-data/ovn:/etc/ovn:ro'', JStr ''/etc/hosts:/etc/hosts:ro'',
              JStr ''/var/lib/config-data/nova/etc/nova:/etc/nova:ro'']"
  let ?vs' = "[JStr ''/var/lib/config-data/nova/etc/nova:/etc/nova:ro'',
               JStr ''/var/lib/config-data/ovn:/etc/ovn:ro'', JStr ''/etc/hosts:/etc/hosts:ro'']"
  let ?bs = "[''/var/lib/config-data/nova'', ''/var/lib/config-data/ovn'']"
  have vols: "map_of [(''volumes'', JList ?vs)] ''volumes'' = Some (JList ?vs)" by simp
  have vols': "map_of [(''environment'', JObj []), (''volumes'', JList ?vs')] ''volumes''
      = Some (JList ?vs')" by simp
  have ok: "match_config_volumes ''/var/lib/config-data'' (JObj [(''volumes'', JList ?vs)])
      = Some (Inr ?bs)"
    by (simp add: match_config_volumes_def get_config_base_def crawl.simps dirname_def
        upto_last_sep_def rstrip_def sep_def join_def startswith_def endswith_def split_colon_0_def)
  have perm: "mset ?vs' = mset ?vs" by simp
  note inst = match_config_volumes_sorted [OF vols ok]
  have s: "sorted ?bs" using inst by blast
  have l: "length ?bs = length (filter (qualifies ''/var/lib/config-data'') ?vs)"
    using inst by blast
  have p: "match_config_volumes ''/var/lib/config-data''
      (JObj [(''environment'', JObj []), (''volumes'', JList ?vs')]) = Some (Inr ?bs)"
    using inst vols' perm by blast
  from vols ok s l perm p show ?thesis by (intro conjI)
qed

section \<open>The run as a function of the files\<close>

lemma slurp_text: "fst (slurp c s) = text_of (files s) c"
  and slurp_files: "files (snd (slurp c s)) = files s"
  and slurp_changed: "changed (snd (slurp c s)) = changed s"
  by (simp_all add: slurp_def text_of_def module_warn_def split: option.splits)

lemma view_reconcile:
  "view (Some (reconcile lib c cfg hs s))
     = (case old_config_hash cfg of
          Inl e \<Rightarrow> Some (Inl e)
        | Inr old \<Rightarrow>
            if JStr (dash_join hs) = old then Some (Inr (files s, changed s))
            else Some (Inr ((files s)(c \<mapsto> \<lparr>content = dumps lib 2 (set_config_hash (dash_join hs) cfg),
                                              mode = 384\<rparr>), True)))"
  by (simp add: view_def reconcile_def filter_object_truth_def update_container_config_def
      module_debug_def split: sum.splits)

lemma view_process_config:
  "view (process_config lib prefix c s) = effect_of (changed s) (files_step lib prefix c (files s))"
proof (cases "startswith (cname_of c) ''hashed-''")
  case True
  then show ?thesis
    by (simp add: process_config_obsolete files_step_def view_def effect_of_def
        remove_file_files remove_file_other)
next
  case False
  show ?thesis
  proof (cases "loads lib (text_of (files s) c)")
    case None
    with False show ?thesis
      by (cases "slurp c s")
        (use slurp_text [of c s] in \<open>simp add: process_config_def files_step_def view_def effect_of_def\<close>)
  next
    case (Some cfg)
    then have doc: "loads lib (fst (slurp c s)) = Some cfg" by (simp add: slurp_text)
    note run = process_config_doc [OF False doc, of prefix]
    show ?thesis
    proof (cases "match_config_volumes prefix cfg")
      case None
      with run False Some show ?thesis by (simp add: files_step_def view_def effect_of_def)
    next
      case m: (Some r)
      show ?thesis
      proof (cases r)
        case (Inl e)
        with m run False Some show ?thesis by (simp add: files_step_def view_def effect_of_def)
      next
        case (Inr vols)
        with m run have "view (process_config lib prefix c s)
            = view (Some (reconcile lib c cfg (filter_None (map (digest (files s)) vols))
                            (snd (slurp c s))))"
          by (simp add: slurp_files)
        also have "\<dots> = effect_of (changed s) (files_step lib prefix c (files s))"
          using False Some m Inr
          by (simp add: view_reconcile files_step_def effect_of_def slurp_files slurp_changed
              split: sum.splits)
        finally show ?thesis .
      qed
    qed
  qed
qed

lemma view_Inr: "view r = Some (Inr (fs, ch)) \<longleftrightarrow> (\<exists>st. r = Some (Inr st) \<and> files st = fs \<and> changed st = ch)"
  by (auto simp: view_def split: option.splits sum.splits)

lemma view_process_configs:
  "view (process_configs lib prefix cs s) = effect_of (changed s) (files_run lib prefix cs (files s))"
proof (induction cs arbitrary: s)
  case Nil
  then show ?case by (simp add: view_def effect_of_def)
next
  case (Cons c cs)
  show ?case
  proof (cases "process_config lib prefix c s")
    case None
    with view_process_config [of lib prefix c s] show ?thesis
      by (auto simp: view_def effect_of_def split: option.splits sum.splits)
  next
    case (Some r)
    show ?thesis
    proof (cases r)
      case (Inl e)
      with Some view_process_config [of lib prefix c s] show ?thesis
        by (auto simp: view_def effect_of_def split: option.splits sum.splits)
    next
      case (Inr s')
      with Some view_process_config [of lib prefix c s]
      have step: "effect_of (changed s) (files_step lib prefix c (files s))
          = Some (Inr (files s', changed s'))"
        by (simp add: view_def)
      then obtain ch where fstep: "files_step lib prefix c (files s) = Some (Inr (files s', ch))"
        and ch: "changed s' = (changed s \<or> ch)"
        by (auto simp: effect_of_def split: option.splits sum.splits)
      from Some Inr have "view (process_configs lib prefix (c # cs) s)
          = view (process_configs lib prefix cs s')" by simp
      also have "\<dots> = effect_of (changed s') (files_run lib prefix cs (files s'))"
        by (rule Cons.IH)
      also have "\<dots> = effect_of (changed s) (files_run lib prefix (c # cs) (files s))"
        using fstep ch by (auto simp: effect_of_def split: option.splits sum.splits)
      finally show ?thesis .
    qed
  qed
qed

lemma files_step_frame:
  assumes "files_step lib prefix c fs = Some (Inr (fs', ch))" and "p \<noteq> c"
  shows "fs' p = fs p"
  using assms
  by (auto simp: files_step_def split: if_splits option.splits sum.splits)

lemma files_run_Cons_Inr:
  assumes "files_run lib prefix (c # cs) fs = Some (Inr (fs2, ch))"
  shows "\<exists>fs1 ch1 ch2. files_step lib prefix c fs = Some (Inr (fs1, ch1))
           \<and> files_run lib prefix cs fs1 = Some (Inr (fs2, ch2))"
proof (cases "files_step lib prefix c fs")
  case None
  with assms show ?thesis by simp
next
  case (Some r)
  show ?thesis
  proof (cases r)
    case (Inl e)
    with Some assms show ?thesis by simp
  next
    case (Inr x)
    obtain fs1 ch1 where x: "x = (fs1, ch1)" by (cases x)
    from assms Some Inr x show ?thesis
      by (cases "files_run lib prefix cs fs1") (auto split: sum.splits)
  qed
qed

lemma files_run_frame:
  "files_run lib prefix cs fs = Some (Inr (fs', ch)) \<Longrightarrow> p \<notin> set cs \<Longrightarrow> fs' p = fs p"
proof (induction cs arbitrary: fs ch)
  case Nil
  then show ?case by simp
next
  case (Cons c cs)
  from files_run_Cons_Inr [OF Cons.prems(1)] obtain fs1 ch1 ch2 where
    step: "files_step lib prefix c fs = Some (Inr (fs1, ch1))"
    and rest: "files_run lib prefix cs fs1 = Some (Inr (fs', ch2))"
    by blast
  from Cons.prems(2) have "p \<noteq> c" "p \<notin> set cs" by auto
  with step rest Cons.IH show ?case by (metis files_step_frame)
qed

lemma files_step_local:
  assumes "gs c = fs c" and "\<And>v. gs (v @ ''.md5sum'') = fs (v @ ''.md5sum'')"
    and "files_step lib prefix c fs = Some (Inr (fs, False))"
  shows "files_step lib prefix c gs = Some (Inr (gs, False))"
proof (cases "startswith (cname_of c) ''hashed-''")
  case True
  with assms(3) have "fs(c := None) = fs" by (simp add: files_step_def)
  then have "fs c = None" by (metis fun_upd_same)
  with assms(1) have "gs(c := None) = gs" by auto
  with True show ?thesis by (simp add: files_step_def)
next
  case False
  have t: "text_of gs c = text_of fs c" by (simp add: text_of_def assms(1))
  have d: "digest gs = digest fs" by (rule ext) (simp add: digest_def assms(2))
  from assms(3) False show ?thesis
    by (auto simp: files_step_def t d split: option.splits sum.splits if_splits)
qed

lemma files_step_again:
  assumes step: "files_step lib prefix c fs = Some (Inr (fs', ch))"
    and json: "endswith c ''.json''"
    and roundtrip: "\<And>g j. fs' c = Some g \<Longrightarrow> content g = dumps lib 2 j \<Longrightarrow> loads lib (content g) = Some j"
  shows "files_step lib prefix c fs' = Some (Inr (fs', False))"
proof (cases "startswith (cname_of c) ''hashed-''")
  case True
  with step have "fs' = fs(c := None)" by (simp add: files_step_def)
  then have "fs'(c := None) = fs'" by simp
  with True show ?thesis by (simp add: files_step_def)
next
  case False
  from step False obtain cfg where doc: "loads lib (text_of fs c) = Some cfg"
    by (auto simp: files_step_def split: option.splits)
  from step False doc obtain vols where vols: "match_config_volumes prefix cfg = Some (Inr vols)"
    by (auto simp: files_step_def split: option.splits sum.splits)
  from step False doc vols obtain old where old: "old_config_hash cfg = Inr old"
    by (auto simp: files_step_def split: sum.splits)
  let ?h = "dash_join (filter_None (map (digest fs) vols))"
  show ?thesis
  proof (cases "JStr ?h = old")
    case True
    with step False doc vols old have "fs' = fs" by (simp add: files_step_def)
    with True False doc vols old show ?thesis by (simp add: files_step_def)
  next
    case differs: False
    let ?cfg' = "set_config_hash ?h cfg"
    let ?g = "\<lparr>content = dumps lib 2 ?cfg', mode = 384\<rparr>"
    from step False doc vols old differs have fs': "fs' = fs(c \<mapsto> ?g)"
      by (simp add: files_step_def)
    have "loads lib (content ?g) = Some ?cfg'"
      by (rule roundtrip [of ?g]) (simp_all add: fs')
    then have doc': "loads lib (text_of fs' c) = Some ?cfg'"
      by (simp add: text_of_def fs')
    have d: "digest fs' = digest fs"
      unfolding fs' by (rule ext) (rule digest_update_json [OF json])
    have vols': "match_config_volumes prefix ?cfg' = Some (Inr vols)"
      using vols by (simp only: match_config_volumes_set [OF old])
    have old': "old_config_hash ?cfg' = Inr (JStr ?h)"
      by (rule old_config_hash_set [OF old])
    from False doc' vols' old' show ?thesis
      by (simp add: files_step_def d)
  qed
qed

lemma files_run_settled:
  assumes "files_run lib prefix cs fs = Some (Inr (fs1, ch))"
    and "\<And>c. c \<in> set cs \<Longrightarrow> endswith c ''.json''"
    and "\<And>c g j. c \<in> set cs \<Longrightarrow> fs1 c = Some g \<Longrightarrow> content g = dumps lib 2 j
           \<Longrightarrow> loads lib (content g) = Some j"
    and "c \<in> set cs"
  shows "files_step lib prefix c fs1 = Some (Inr (fs1, False))"
  using assms
proof (induction cs arbitrary: fs ch)
  case Nil
  then show ?case by simp
next
  case (Cons a cs)
  from files_run_Cons_Inr [OF Cons.prems(1)] obtain fs' ch1 ch2 where
    step: "files_step lib prefix a fs = Some (Inr (fs', ch1))"
    and rest: "files_run lib prefix cs fs' = Some (Inr (fs1, ch2))"
    by blast
  show ?case
  proof (cases "c \<in> set cs")
    case True
    with rest Cons.prems(2,3) show ?thesis
      by (intro Cons.IH [of fs' ch2]) auto
  next
    case False
    with Cons.prems(4) have ca: "c = a" by simp
    have json: "endswith a ''.json''" using Cons.prems(2) by simp
    have same: "fs1 a = fs' a"
      using rest False ca by (intro files_run_frame [of lib prefix cs fs' fs1 ch2]) auto
    have digests: "fs1 (v @ ''.md5sum'') = fs' (v @ ''.md5sum'')" for v
    proof (rule files_run_frame [OF rest])
      show "v @ ''.md5sum'' \<notin> set cs"
      proof
        assume "v @ ''.md5sum'' \<in> set cs"
        then have "endswith (v @ ''.md5sum'') ''.json''" using Cons.prems(2) by simp
        then show False using json_not_md5sum by blast
      qed
    qed
    have "files_step lib prefix a fs' = Some (Inr (fs', False))"
      using step json
    proof (rule files_step_again)
      fix g j assume "fs' a = Some g" "content g = dumps lib 2 j"
      with same show "loads lib (content g) = Some j"
        using Cons.prems(3) [of a g j] by simp
    qed
    with same digests show ?thesis
      unfolding ca by (intro files_step_local [of fs1 a fs']) auto
  qed
qed

lemma files_run_quiet:
  assumes "\<And>c. c \<in> set cs \<Longrightarrow> files_step lib prefix c fs = Some (Inr (fs, False))"
  shows "files_run lib prefix cs fs = Some (Inr (fs, False))"
  using assms by (induction cs) simp_all

lemma endswith_append: "endswith n suf \<Longrightarrow> endswith (x @ n) suf"
  by (auto simp: endswith_def startswith_append)

lemma find_configs_json:
  assumes "c \<in> set (fst (find_configs tree path s))"
  shows "endswith c ''.json''"
proof -
  have e: "endswith (join root n) ''.json''" if n: "endswith n ''.json''" for root n
  proof -
    have "join root n = n \<or> join root n = root @ n \<or> join root n = (root @ [sep]) @ n"
      by (simp add: join_def)
    with n endswith_append show ?thesis by metis
  qed
  from assms show ?thesis
    by (auto simp: find_configs_def fnmatch_filter_json_def e split: option.splits)
qed

lemma find_configs_indep: "fst (find_configs tree path s) = fst (find_configs tree path s')"
  by (simp add: find_configs_def split: option.splits)

section \<open>Leaving unchanged descriptors alone\<close>

lemma find_configs_snd:
  "files (snd (find_configs tree path s)) = files s"
  "changed (snd (find_configs tree path s)) = changed s"
  by (simp_all add: find_configs_def module_warn_def split: option.splits)

lemma view_main:
  "view (main lib args tree fs)
     = files_run lib (config_vol_prefix args)
         (fst (find_configs tree CONTAINER_STARTUP_CONFIG s)) fs"
proof -
  let ?s0 = "\<lparr>files = fs, changed = False, messages = []\<rparr>"
  let ?cs = "fst (find_configs tree CONTAINER_STARTUP_CONFIG ?s0)"
  let ?s1 = "snd (find_configs tree CONTAINER_STARTUP_CONFIG ?s0)"
  have "main lib args tree fs = process_configs lib (config_vol_prefix args) ?cs ?s1"
    by (simp add: main_def update_hashes_def split: prod.splits)
  then have "view (main lib args tree fs)
      = effect_of (changed ?s1) (files_run lib (config_vol_prefix args) ?cs (files ?s1))"
    by (simp only: view_process_configs)
  also have "\<dots> = files_run lib (config_vol_prefix args) ?cs fs"
    by (simp add: find_configs_snd effect_of_def split: option.splits sum.splits)
  also have "?cs = fst (find_configs tree CONTAINER_STARTUP_CONFIG s)"
    by (rule find_configs_indep)
  finally show ?thesis .
qed

text \<open>
  Claim C7. For an active descriptor whose stored hash equals the join of a non-empty
  list of retained digests, processing returns the state as it was: no file is written
  and \<^verbatim>\<open>changed\<close> keeps its value. Hence a second run changes nothing: if a run ends
  without error, the next run finds no descriptor that the first did not find, and the
  JSON library reads the descriptors that the first run left as it wrote them, then the
  next run, started on the files the first one left, ends without error with the same
  files and with \<^verbatim>\<open>changed\<close> false.
\<close>

theorem unchanged_descriptor_untouched:
  "(\<not> startswith (cname_of config) ''hashed-''
      \<and> files st config = Some f
      \<and> loads lib (content f) = Some cfg
      \<and> match_config_volumes prefix cfg = Some (Inr config_volumes)
      \<and> filter_None (fst (get_config_hashes config_volumes st)) = hs
      \<and> hs \<noteq> []
      \<and> old_config_hash cfg = Inr (JStr (dash_join hs)) \<longrightarrow>
        process_config lib prefix config st = Some (Inr st))
   \<and> (main lib args tree fs = Some (Inr st1)
      \<and> set (fst (find_configs tree' CONTAINER_STARTUP_CONFIG st1))
          \<subseteq> set (fst (find_configs tree CONTAINER_STARTUP_CONFIG st1))
      \<and> (\<forall>c g j. c \<in> set (fst (find_configs tree CONTAINER_STARTUP_CONFIG st1))
            \<and> files st1 c = Some g \<and> content g = dumps lib 2 j \<longrightarrow>
              loads lib (content g) = Some j) \<longrightarrow>
        (\<exists>st2. main lib args tree' (files st1) = Some (Inr st2)
           \<and> files st2 = files st1 \<and> changed st2 = False))"
proof (intro conjI impI)
  assume a: "\<not> startswith (cname_of config) ''hashed-''
      \<and> files st config = Some f
      \<and> loads lib (content f) = Some cfg
      \<and> match_config_volumes prefix cfg = Some (Inr config_volumes)
      \<and> filter_None (fst (get_config_hashes config_volumes st)) = hs
      \<and> hs \<noteq> []
      \<and> old_config_hash cfg = Inr (JStr (dash_join hs))"
  then have "old_config_hash cfg
      = Inr (JStr (dash_join (filter_None (map (digest (files st)) config_volumes))))"
    by (simp add: get_config_hashes_eq)
  with a show "process_config lib prefix config st = Some (Inr st)"
    by (intro process_config_stable [of config st f lib cfg prefix config_volumes]) simp_all
next
  let ?cs = "fst (find_configs tree CONTAINER_STARTUP_CONFIG st1)"
  let ?cs' = "fst (find_configs tree' CONTAINER_STARTUP_CONFIG st1)"
  let ?prefix = "config_vol_prefix args"
  assume a: "main lib args tree fs = Some (Inr st1)
      \<and> set ?cs' \<subseteq> set ?cs
      \<and> (\<forall>c g j. c \<in> set ?cs \<and> files st1 c = Some g \<and> content g = dumps lib 2 j \<longrightarrow>
              loads lib (content g) = Some j)"
  then have "view (main lib args tree fs) = Some (Inr (files st1, changed st1))"
    by (simp add: view_def)
  then have first: "files_run lib ?prefix ?cs fs = Some (Inr (files st1, changed st1))"
    by (simp only: view_main [of lib args tree fs st1])
  have settled: "files_step lib ?prefix c (files st1) = Some (Inr (files st1, False))"
    if "c \<in> set ?cs" for c
    using first _ _ that
  proof (rule files_run_settled)
    fix c assume "c \<in> set ?cs"
    then show "endswith c ''.json''" by (rule find_configs_json)
  next
    fix c g j assume "c \<in> set ?cs" "files st1 c = Some g" "content g = dumps lib 2 j"
    with a show "loads lib (content g) = Some j" by blast
  qed
  have "files_run lib ?prefix ?cs' (files st1) = Some (Inr (files st1, False))"
  proof (rule files_run_quiet)
    fix c assume "c \<in> set ?cs'"
    with a have "c \<in> set ?cs" by blast
    then show "files_step lib ?prefix c (files st1) = Some (Inr (files st1, False))"
      by (rule settled)
  qed
  then have "view (main lib args tree' (files st1)) = Some (Inr (files st1, False))"
    by (simp only: view_main [of lib args tree' "files st1" st1])
  then show "\<exists>st2. main lib args tree' (files st1) = Some (Inr st2)
           \<and> files st2 = files st1 \<and> changed st2 = False"
    by (simp only: view_Inr)
qed

lemma example_dumps_inverse:
  "dumps example_lib 2 j = ''nova_compute, with hash abc123'' \<Longrightarrow> j = nova_config_hashed"
  "dumps example_lib 2 j = ''ovn_controller, with empty hash'' \<Longrightarrow> j = ovn_config_emptied"
  by (auto simp: example_lib_def example_docs_def split: if_splits)

lemma ovn_doc_emptied: "loads example_lib ''ovn_controller, with empty hash'' = Some ovn_config_emptied"
  by (simp add: example_lib_def example_docs_def)

lemma example_main:
  "main example_lib (example_params check) example_tree example_files = Some (Inr example_state_final)"
  using example_run
  by (simp add: main_def update_hashes_def example_configs example_params_def
      example_state_def [symmetric])

text \<open>
  Claim C7 on the example host: the rewritten descriptor of \<^verbatim>\<open>nova_compute\<close> is left
  alone, and a second run after the first, which changed two descriptors and removed a
  file, changes nothing.
\<close>

theorem unchanged_descriptor_untouched_witness:
  "\<not> startswith (cname_of nova_path) ''hashed-''
   \<and> files example_state_after nova_path
       = Some \<lparr>content = ''nova_compute, with hash abc123'', mode = 384\<rparr>
   \<and> loads example_lib ''nova_compute, with hash abc123'' = Some nova_config_hashed
   \<and> match_config_volumes default_prefix nova_config_hashed = Some (Inr [''/var/lib/config-data/nova''])
   \<and> filter_None (fst (get_config_hashes [''/var/lib/config-data/nova''] example_state_after)) = [''abc123'']
   \<and> [''abc123''] \<noteq> []
   \<and> old_config_hash nova_config_hashed = Inr (JStr (dash_join [''abc123'']))
   \<and> process_config example_lib default_prefix nova_path example_state_after
       = Some (Inr example_state_after)
   \<and> main example_lib (example_params False) example_tree example_files = Some (Inr example_state_final)
   \<and> changed example_state_final = True
   \<and> fst (find_configs example_tree CONTAINER_STARTUP_CONFIG example_state_final)
       = [nova_path, hashed_path, ovn_path]
   \<and> (\<exists>st2. main example_lib (example_params False) example_tree (files example_state_final)
                = Some (Inr st2)
          \<and> files st2 = files example_state_final \<and> changed st2 = False)"
proof -
  have doc1: "loads example_lib
      (content \<lparr>content = ''nova_compute, with hash abc123'', mode = 384\<rparr>) = Some nova_config_hashed"
    using nova_doc_hashed by simp
  have old1: "old_config_hash nova_config_hashed = Inr (JStr (dash_join [''abc123'']))"
    using nova_old_hashed by simp
  have nonempty: "[''abc123''] \<noteq> []" by simp
  note inst = unchanged_descriptor_untouched [of nova_path example_state_after
      "\<lparr>content = ''nova_compute, with hash abc123'', mode = 384\<rparr>" example_lib nova_config_hashed
      default_prefix "[''/var/lib/config-data/nova'']" "[''abc123'']"
      "example_params False" example_tree example_files example_state_final example_tree]
  have again: "process_config example_lib default_prefix nova_path example_state_after
       = Some (Inr example_state_after)"
    using inst nova_active nova_present_after doc1 nova_volumes(2) nova_hashes_after nonempty old1
    by blast
  have listing: "fst (find_configs example_tree CONTAINER_STARTUP_CONFIG example_state_final)
       = [nova_path, hashed_path, ovn_path]"
    by (simp add: example_configs)
  have roundtrip: "\<forall>c g j. c \<in> set (fst (find_configs example_tree CONTAINER_STARTUP_CONFIG example_state_final))
            \<and> files example_state_final c = Some g \<and> content g = dumps example_lib 2 j \<longrightarrow>
              loads example_lib (content g) = Some j"
  proof (intro allI impI)
    fix c g j
    assume a: "c \<in> set (fst (find_configs example_tree CONTAINER_STARTUP_CONFIG example_state_final))
            \<and> files example_state_final c = Some g \<and> content g = dumps example_lib 2 j"
    then consider "c = nova_path" | "c = hashed_path" | "c = ovn_path"
      by (auto simp: listing)
    then show "loads example_lib (content g) = Some j"
    proof cases
      case 1
      with a example_state_final_files(1) have g: "content g = ''nova_compute, with hash abc123''"
        by auto
      with a have "j = nova_config_hashed" by (simp add: example_dumps_inverse(1))
      with g nova_doc_hashed show ?thesis by simp
    next
      case 2
      with a example_state_final_files(2) show ?thesis by simp
    next
      case 3
      with a example_state_final_files(3) have g: "content g = ''ovn_controller, with empty hash''"
        by auto
      with a have "j = ovn_config_emptied" by (simp add: example_dumps_inverse(2))
      with g ovn_doc_emptied show ?thesis by simp
    qed
  qed
  have second: "\<exists>st2. main example_lib (example_params False) example_tree (files example_state_final)
                = Some (Inr st2)
          \<and> files st2 = files example_state_final \<and> changed st2 = False"
    using inst example_main [of False] roundtrip by blast
  have flag: "changed example_state_final = True"
    using example_state_final_files(4) by simp
  from nova_active nova_present_after nova_doc_hashed nova_volumes(2) nova_hashes_after nonempty old1
    again example_main [of False] flag listing second
  show ?thesis by (intro conjI)
qed

end
